theory Spec2Isabelle
  imports Main "HOL-Library.Word"
begin

unbundle bit_operations_syntax

section \<open>okon: an on-disk B-tree of SHA-1 digests\<close>

text \<open>
  A shallow embedding of \<^verbatim>\<open>src/lib/sha1_utils.hpp\<close>, \<^verbatim>\<open>src/lib/btree_base.hpp\<close> and
  \<^verbatim>\<open>src/lib/btree_sorted_keys_inserter.hpp\<close>.  Machine integers are words of the
  width the source declares; \<^verbatim>\<open>std::vector\<close> and \<^verbatim>\<open>std::array\<close> are lists.
\<close>

subsection \<open>Hex codec (\<^verbatim>\<open>sha1_utils.hpp\<close>)\<close>

type_synonym byte = "8 word"

text \<open>A C \<^verbatim>\<open>char\<close>: eight bits, arithmetic modulo 256.\<close>
type_synonym cchar = "8 word"

text \<open>\<^verbatim>\<open>sha1_t = std::array<uint8_t, 20>\<close>; the length is a well-formedness condition.\<close>
type_synonym sha1_t = "byte list"

text \<open>
  \<^verbatim>\<open>char_to_index\<close>: the \<^verbatim>\<open>switch\<close> subtracts \<^verbatim>\<open>'A' - ':'\<close> from an upper-case letter
  A..F and \<^verbatim>\<open>'a' - ':'\<close> from a lower-case one, every other character falls through;
  then \<^verbatim>\<open>'0'\<close> is subtracted.
\<close>
definition char_to_index :: "cchar \<Rightarrow> byte" where
  "char_to_index c =
     (let c1 = (if c \<in> {0x41, 0x42, 0x43, 0x44, 0x45, 0x46} then c - (0x41 - 0x3A)
                else if c \<in> {0x61, 0x62, 0x63, 0x64, 0x65, 0x66} then c - (0x61 - 0x3A)
                else c)
      in c1 - 0x30)"

text \<open>\<^verbatim>\<open>two_first_chars_to_byte(cs)\<close> reads \<^verbatim>\<open>cs[0]\<close> and \<^verbatim>\<open>cs[1]\<close>.\<close>
definition two_first_chars_to_byte :: "cchar list \<Rightarrow> byte" where
  "two_first_chars_to_byte cs =
     push_bit 4 (char_to_index (cs ! 0)) OR char_to_index (cs ! 1)"

text \<open>
  The loop of \<^verbatim>\<open>details::string_sha1_to_binary\<close>:
  \<^verbatim>\<open>for (i = 0; i < 40; i += 2) sha1[i / 2] = two_first_chars_to_byte(sha1_text + i)\<close>.
\<close>
function string_sha1_loop :: "nat \<Rightarrow> cchar list \<Rightarrow> sha1_t \<Rightarrow> sha1_t" where
  "string_sha1_loop i sha1_text sha1 =
     (if i < 40
      then string_sha1_loop (i + 2) sha1_text
             (sha1[i div 2 := two_first_chars_to_byte (drop i sha1_text)])
      else sha1)"
  by pat_completeness auto
termination
  by (relation "measure (\<lambda>(i, sha1_text, sha1). 40 - i)") auto

declare string_sha1_loop.simps [simp del]

text \<open>
  The function reads 40 characters through a \<^verbatim>\<open>const char*\<close>; a shorter buffer is read
  out of bounds, which the model reports as \<open>None\<close>.
\<close>
definition string_sha1_to_binary :: "cchar list \<Rightarrow> sha1_t option" where
  "string_sha1_to_binary sha1_text =
     (if length sha1_text < 40 then None
      else Some (string_sha1_loop 0 sha1_text (replicate 20 0)))"

text \<open>The lambda \<^verbatim>\<open>to_char\<close> of \<^verbatim>\<open>binary_sha1_to_string\<close>.\<close>
definition to_char :: "byte \<Rightarrow> cchar" where
  "to_char v = (if v < 10 then v + 0x30 else v - 10 + 0x41)"

text \<open>The range-for of \<^verbatim>\<open>binary_sha1_to_string\<close>, appending two characters per byte.\<close>
fun binary_sha1_loop :: "byte list \<Rightarrow> cchar list \<Rightarrow> cchar list" where
  "binary_sha1_loop [] result = result"
| "binary_sha1_loop (b # bs) result =
     (let first_char = drop_bit 4 (b AND 0xF0);
          second_char = b AND 0x0F
      in binary_sha1_loop bs (result @ [to_char first_char] @ [to_char second_char]))"

definition binary_sha1_to_string :: "sha1_t \<Rightarrow> cchar list" where
  "binary_sha1_to_string sha1 = binary_sha1_loop sha1 []"

text \<open>The two characters emitted for one byte (a name for the proofs).\<close>
definition hex_of_byte :: "byte \<Rightarrow> cchar list" where
  "hex_of_byte b = [to_char (drop_bit 4 (b AND 0xF0)), to_char (b AND 0x0F)]"

subsection \<open>Byte store\<close>

text \<open>
  Modelled from the spec: the byte store (the template parameter \<^verbatim>\<open>DataStorage\<close>; its
  class is not among the sources).  Section 6.1 of the spec gives its interface: a
  position for reads (\<^verbatim>\<open>seek_in\<close>), a position for writes (\<^verbatim>\<open>seek_out\<close>),
  \<^verbatim>\<open>read\<close> and \<^verbatim>\<open>write\<close> of exactly \<open>n\<close> bytes at the position, which they advance.
  The store is an unbounded array of bytes; I/O failure is outside the model.
\<close>
record storage =
  bytes :: "nat \<Rightarrow> byte"
  in_pos :: nat
  out_pos :: nat

definition seek_in :: "nat \<Rightarrow> storage \<Rightarrow> storage" where
  "seek_in p st = st\<lparr>in_pos := p\<rparr>"

definition seek_out :: "nat \<Rightarrow> storage \<Rightarrow> storage" where
  "seek_out p st = st\<lparr>out_pos := p\<rparr>"

definition storage_write :: "byte list \<Rightarrow> storage \<Rightarrow> storage" where
  "storage_write bs st =
     st\<lparr>bytes := (\<lambda>i. if out_pos st \<le> i \<and> i < out_pos st + length bs
                         then bs ! (i - out_pos st) else bytes st i),
        out_pos := out_pos st + length bs\<rparr>"

definition storage_read :: "nat \<Rightarrow> storage \<Rightarrow> byte list \<times> storage" where
  "storage_read n st =
     (map (bytes st) [in_pos st..<in_pos st + n], st\<lparr>in_pos := in_pos st + n\<rparr>)"

subsection \<open>Raw memory of the fields\<close>

text \<open>
  \<^verbatim>\<open>write(&x, sizeof(x))\<close> copies the object representation; the model fixes the byte
  order of the host as little-endian.
\<close>
definition le_bytes :: "nat \<Rightarrow> 'a::len word \<Rightarrow> byte list" where
  "le_bytes n w = map (\<lambda>i. ucast (drop_bit (8 * i) w)) [0..<n]"

fun le_word :: "byte list \<Rightarrow> 'a::len word" where
  "le_word [] = 0"
| "le_word (b # bs) = ucast b OR push_bit 8 (le_word bs)"

definition bool_bytes :: "bool \<Rightarrow> byte list" where
  "bool_bytes b = [if b then 1 else 0]"

definition bytes_bool :: "byte list \<Rightarrow> bool" where
  "bytes_bool bs = (bs ! 0 \<noteq> 0)"

text \<open>A buffer of \<open>k * n\<close> bytes seen as \<open>k\<close> objects of \<open>n\<close> bytes each.\<close>
fun chunks :: "nat \<Rightarrow> nat \<Rightarrow> 'a list \<Rightarrow> 'a list list" where
  "chunks 0 n xs = []"
| "chunks (Suc k) n xs = take n xs # chunks k n (drop n xs)"

subsection \<open>Nodes\<close>

text \<open>
  Modelled from the spec: \<^verbatim>\<open>btree_node.hpp\<close> is not among the sources.  Section 3.2
  of the spec gives the fields, \<open>2m + 1\<close> pointer slots and \<open>2m\<close> key slots for order
  \<open>m\<close>, the sentinel \<^verbatim>\<open>UNUSED\<close> and the binary size.  Node identifiers and
  \<^verbatim>\<open>keys_count\<close> are taken as 32-bit unsigned (the builder's counters are
  \<^verbatim>\<open>unsigned\<close>), \<^verbatim>\<open>is_leaf\<close> as one byte.
\<close>
type_synonym pointer_t = "32 word"
type_synonym order_t = "32 word"

definition k_unused_pointer :: pointer_t where
  "k_unused_pointer = 0xFFFFFFFF"

definition sizeof_pointer :: nat where
  "sizeof_pointer = 4"

record btree_node =
  is_leaf :: bool
  keys_count :: "32 word"
  pointers :: "pointer_t list"
  keys :: "sha1_t list"
  parent_pointer :: pointer_t
  this_pointer :: pointer_t

text \<open>
  The constructor \<^verbatim>\<open>btree_node{order, parent_ptr}\<close>.  Every caller in the sources
  assigns \<^verbatim>\<open>this_pointer\<close> and \<^verbatim>\<open>is_leaf\<close> right after it.
\<close>
definition new_btree_node :: "order_t \<Rightarrow> pointer_t \<Rightarrow> btree_node" where
  "new_btree_node order parent_ptr =
     \<lparr>is_leaf = True, keys_count = 0,
      pointers = replicate (2 * unat order + 1) k_unused_pointer,
      keys = replicate (2 * unat order) (replicate 20 0),
      parent_pointer = parent_ptr, this_pointer = k_unused_pointer\<rparr>"

definition binary_pointers_size :: "order_t \<Rightarrow> nat" where
  "binary_pointers_size order = (2 * unat order + 1) * sizeof_pointer"

definition binary_keys_size :: "order_t \<Rightarrow> nat" where
  "binary_keys_size order = 2 * unat order * 20"

definition binary_size :: "order_t \<Rightarrow> nat" where
  "binary_size order =
     1 + 4 + binary_pointers_size order + binary_keys_size order + sizeof_pointer"

text \<open>A node as the constructor sizes it for order \<open>order\<close>, with 20-byte keys.\<close>
definition wf_node :: "order_t \<Rightarrow> btree_node \<Rightarrow> bool" where
  "wf_node order n \<longleftrightarrow>
     length (pointers n) = 2 * unat order + 1 \<and>
     length (keys n) = 2 * unat order \<and>
     list_all (\<lambda>k. length k = 20) (keys n)"

subsection \<open>Page codec (\<^verbatim>\<open>btree_base.hpp\<close>)\<close>

text \<open>\<^verbatim>\<open>tree_offset() = sizeof(m_order) + sizeof(m_root_ptr)\<close>, a \<^verbatim>\<open>uint64_t\<close>.\<close>
definition tree_offset :: "64 word" where
  "tree_offset = 4 + of_nat sizeof_pointer"

text \<open>
  \<^verbatim>\<open>node_place = uint64_t{tree_offset()} + uint64_t{binary_size(m_order)} * uint64_t{ptr}\<close>,
  computed in 64-bit unsigned arithmetic.
\<close>
definition node_place :: "order_t \<Rightarrow> pointer_t \<Rightarrow> 64 word" where
  "node_place order ptr = tree_offset + of_nat (binary_size order) * ucast ptr"

definition read_node :: "order_t \<Rightarrow> pointer_t \<Rightarrow> storage \<Rightarrow> btree_node \<times> storage" where
  "read_node order ptr st =
     (let pointers_size = binary_pointers_size order;
          keys_size = binary_keys_size order;
          node = new_btree_node order k_unused_pointer;
          st0 = seek_in (unat (node_place order ptr)) st;
          (b_leaf, st1) = storage_read 1 st0;
          (b_count, st2) = storage_read 4 st1;
          (b_pointers, st3) = storage_read pointers_size st2;
          (b_keys, st4) = storage_read keys_size st3;
          (b_parent, st5) = storage_read sizeof_pointer st4
      in (node\<lparr>is_leaf := bytes_bool b_leaf,
               keys_count := le_word b_count,
               pointers := map le_word (chunks (length (pointers node)) sizeof_pointer b_pointers),
               keys := chunks (length (keys node)) 20 b_keys,
               parent_pointer := le_word b_parent,
               this_pointer := ptr\<rparr>, st5))"

definition write_node :: "order_t \<Rightarrow> btree_node \<Rightarrow> storage \<Rightarrow> storage" where
  "write_node order node st =
     (let pointers_size = binary_pointers_size order;
          keys_size = binary_keys_size order;
          st0 = seek_out (unat (node_place order (this_pointer node))) st;
          st1 = storage_write (bool_bytes (is_leaf node)) st0;
          st2 = storage_write (le_bytes 4 (keys_count node)) st1;
          st3 = storage_write
                  (take pointers_size (concat (map (le_bytes sizeof_pointer) (pointers node)))) st2;
          st4 = storage_write (take keys_size (concat (keys node))) st3;
          st5 = storage_write (le_bytes sizeof_pointer (parent_pointer node)) st4
      in st5)"

text \<open>The bytes of the store from \<open>off\<close> on, \<open>n\<close> of them (a name for the statements).\<close>
definition bytes_at :: "storage \<Rightarrow> nat \<Rightarrow> nat \<Rightarrow> byte list" where
  "bytes_at st off n = map (bytes st) [off..<off + n]"

text \<open>
  The record of a node as one block, and its decoding (names for the statements:
  \<open>write_node_eq\<close> and \<open>read_node_eq\<close> relate them to the code).
\<close>
definition node_bytes :: "order_t \<Rightarrow> btree_node \<Rightarrow> byte list" where
  "node_bytes order node =
     bool_bytes (is_leaf node) @ le_bytes 4 (keys_count node) @
     take (binary_pointers_size order) (concat (map (le_bytes sizeof_pointer) (pointers node))) @
     take (binary_keys_size order) (concat (keys node)) @
     le_bytes sizeof_pointer (parent_pointer node)"

definition decode_node :: "order_t \<Rightarrow> pointer_t \<Rightarrow> byte list \<Rightarrow> btree_node" where
  "decode_node order ptr bs =
     \<lparr>is_leaf = bytes_bool (take 1 bs),
      keys_count = le_word (take 4 (drop 1 bs)),
      pointers = map le_word (chunks (2 * unat order + 1) sizeof_pointer
                   (take (binary_pointers_size order) (drop 5 bs))),
      keys = chunks (2 * unat order) 20
                   (take (binary_keys_size order) (drop (5 + binary_pointers_size order) bs)),
      parent_pointer = le_word (take sizeof_pointer
                   (drop (5 + binary_pointers_size order + binary_keys_size order) bs)),
      this_pointer = ptr\<rparr>"

text \<open>
  The reading constructor \<^verbatim>\<open>btree_base(DataStorage&)\<close>: the order, then the root pointer,
  from offset 0.
\<close>
definition open_reader :: "storage \<Rightarrow> (order_t \<times> pointer_t) \<times> storage" where
  "open_reader st =
     (let st0 = seek_in 0 st;
          (b_order, st1) = storage_read 4 st0;
          (b_root, st2) = storage_read sizeof_pointer st1
      in ((le_word b_order, le_word b_root), st2))"

subsection \<open>Node operations used by the builder\<close>

text \<open>
  Modelled from the spec: the member functions of \<^verbatim>\<open>btree_node\<close> that the builder calls
  (\<^verbatim>\<open>btree_node.hpp\<close> is not among the sources).  A node is full when all of its \<open>2m\<close>
  key slots are live (section 4.3.3, overflow case); \<^verbatim>\<open>push_back\<close> appends a key and
  increments \<^verbatim>\<open>keys_count\<close> (common case); \<^verbatim>\<open>insert\<close> puts the key in as the new
  rightmost key (split, step 4); the rightmost pointer is \<^verbatim>\<open>pointers[keys_count]\<close>
  (section 3.2, invariant 5); the child count is the number of live pointers, those
  different from \<^verbatim>\<open>UNUSED\<close> (section 3.2, invariant 3).
\<close>
definition is_full :: "btree_node \<Rightarrow> bool" where
  "is_full node \<longleftrightarrow> unat (keys_count node) = length (keys node)"

definition push_back :: "sha1_t \<Rightarrow> btree_node \<Rightarrow> btree_node" where
  "push_back sha1 node =
     node\<lparr>keys := (keys node)[unat (keys_count node) := sha1],
          keys_count := keys_count node + 1\<rparr>"

definition node_insert :: "sha1_t \<Rightarrow> btree_node \<Rightarrow> btree_node" where
  "node_insert sha1 node =
     node\<lparr>keys := (keys node)[unat (keys_count node) := sha1],
          keys_count := keys_count node + 1\<rparr>"

definition rightmost_pointer :: "btree_node \<Rightarrow> pointer_t" where
  "rightmost_pointer node = pointers node ! unat (keys_count node)"

definition children_count :: "btree_node \<Rightarrow> 32 word" where
  "children_count node = of_nat (length (filter (\<lambda>p. p \<noteq> k_unused_pointer) (pointers node)))"

subsection \<open>The builder (\<^verbatim>\<open>btree_sorted_keys_inserter.hpp\<close>)\<close>

text \<open>The members of \<^verbatim>\<open>btree_base\<close> and of \<^verbatim>\<open>btree_sorted_keys_inserter\<close>.\<close>
record inserter =
  m_storage :: storage
  m_order :: order_t
  m_root_ptr :: pointer_t
  m_next_node_ptr :: pointer_t
  m_current_path :: "btree_node list"
  m_tree_height :: "32 word"
  m_visited_nodes :: "pointer_t set"
  m_nodes_created_during_rebalancing :: "pointer_t set"
  m_keys_took_by_provider :: "pointer_t \<rightharpoonup> 32 word"

definition new_node_pointer :: "inserter \<Rightarrow> pointer_t \<times> inserter" where
  "new_node_pointer s = (m_next_node_ptr s, s\<lparr>m_next_node_ptr := m_next_node_ptr s + 1\<rparr>)"

text \<open>
  \<^verbatim>\<open>current_node()\<close> is \<^verbatim>\<open>m_current_path.back()\<close>.  On an empty path the source has
  undefined behaviour; the path of a builder is never empty.
\<close>
definition current_node :: "inserter \<Rightarrow> btree_node" where
  "current_node s = last (m_current_path s)"

definition pop_back :: "inserter \<Rightarrow> inserter" where
  "pop_back s = s\<lparr>m_current_path := butlast (m_current_path s)\<rparr>"

definition emplace_back :: "btree_node \<Rightarrow> inserter \<Rightarrow> inserter" where
  "emplace_back node s = s\<lparr>m_current_path := m_current_path s @ [node]\<rparr>"

text \<open>Assignment through the reference that \<^verbatim>\<open>current_node()\<close> returns.\<close>
definition set_current_node :: "btree_node \<Rightarrow> inserter \<Rightarrow> inserter" where
  "set_current_node node s = s\<lparr>m_current_path := butlast (m_current_path s) @ [node]\<rparr>"

definition inserter_write_node :: "btree_node \<Rightarrow> inserter \<Rightarrow> inserter" where
  "inserter_write_node node s = s\<lparr>m_storage := write_node (m_order s) node (m_storage s)\<rparr>"

definition inserter_read_node :: "pointer_t \<Rightarrow> inserter \<Rightarrow> btree_node \<times> inserter" where
  "inserter_read_node ptr s =
     (let (node, st) = read_node (m_order s) ptr (m_storage s) in (node, s\<lparr>m_storage := st\<rparr>))"

text \<open>\<^verbatim>\<open>set_root_ptr\<close>: the root pointer is persisted at offset \<^verbatim>\<open>sizeof(m_order)\<close>.\<close>
definition set_root_ptr :: "pointer_t \<Rightarrow> inserter \<Rightarrow> inserter" where
  "set_root_ptr ptr s =
     s\<lparr>m_root_ptr := ptr,
       m_storage := storage_write (le_bytes sizeof_pointer ptr) (seek_out 4 (m_storage s))\<rparr>"

text \<open>
  The constructor: \<^verbatim>\<open>btree_base\<close> writes the order at offset 0, the root pointer member
  is initialised to 0 and not written; the path gets a root leaf with a fresh identifier.
\<close>
definition btree_sorted_keys_inserter :: "storage \<Rightarrow> order_t \<Rightarrow> inserter" where
  "btree_sorted_keys_inserter storage order =
     (let s0 = \<lparr>m_storage = storage_write (le_bytes 4 order) (seek_out 0 storage),
                m_order = order, m_root_ptr = 0, m_next_node_ptr = 0,
                m_current_path = [], m_tree_height = 1, m_visited_nodes = {},
                m_nodes_created_during_rebalancing = {},
                m_keys_took_by_provider = Map.empty\<rparr>;
          root = new_btree_node order k_unused_pointer;
          (ptr, s1) = new_node_pointer s0
      in emplace_back (root\<lparr>this_pointer := ptr, is_leaf := True\<rparr>) s1)"

function create_children_till_leaf :: "32 word \<Rightarrow> inserter \<Rightarrow> inserter" where
  "create_children_till_leaf level_from_leafs s =
     (let is_on_leaf_level = (level_from_leafs = 0);
          parent_ptr = this_pointer (current_node s);
          parent_place_in_current_path = length (m_current_path s) - 1;
          (ptr, s1) = new_node_pointer s;
          node = (new_btree_node (m_order s) parent_ptr)
                   \<lparr>this_pointer := ptr, keys_count := 0, is_leaf := is_on_leaf_level\<rparr>;
          s2 = emplace_back node s1;
          parent = m_current_path s2 ! parent_place_in_current_path;
          parent' = parent\<lparr>pointers :=
                      (pointers parent)[unat (keys_count parent) := this_pointer node]\<rparr>;
          s3 = s2\<lparr>m_current_path :=
                    (m_current_path s2)[parent_place_in_current_path := parent']\<rparr>
      in if is_on_leaf_level then s3
         else create_children_till_leaf (level_from_leafs - 1) s3)"
  by pat_completeness auto
termination
  by (relation "measure (\<lambda>(level_from_leafs, s). unat level_from_leafs)")
    (auto simp: unat_minus_one unat_gt_0)

declare create_children_till_leaf.simps [simp del]

definition split_root_and_grow :: "sha1_t \<Rightarrow> 32 word \<Rightarrow> inserter \<Rightarrow> inserter" where
  "split_root_and_grow sha1 level_from_leafs s =
     (let (new_root_ptr, s1) = new_node_pointer s;
          old_root = (current_node s1)\<lparr>parent_pointer := new_root_ptr\<rparr>;
          old_root_ptr = this_pointer old_root;
          s2 = pop_back (inserter_write_node old_root s1);
          new_root = (node_insert sha1 (new_btree_node (m_order s2) k_unused_pointer));
          new_root' = new_root\<lparr>pointers := (pointers new_root)[0 := old_root_ptr],
                               this_pointer := new_root_ptr, is_leaf := False\<rparr>;
          s3 = emplace_back new_root' s2;
          s4 = create_children_till_leaf level_from_leafs s3;
          s5 = set_root_ptr new_root_ptr s4
      in s5\<lparr>m_tree_height := m_tree_height s5 + 1\<rparr>)"

text \<open>
  \<^verbatim>\<open>split_node\<close>.  With an empty path the source would call \<^verbatim>\<open>back()\<close> and
  \<^verbatim>\<open>pop_back()\<close> on an empty vector (undefined behaviour); the model returns the state.
\<close>
function split_node :: "sha1_t \<Rightarrow> 32 word \<Rightarrow> inserter \<Rightarrow> inserter" where
  "split_node sha1 level_from_leafs s =
     (if m_current_path s = [] then s
      else if length (m_current_path s) = 1 then split_root_and_grow sha1 level_from_leafs s
      else
        (let s1 = pop_back (inserter_write_node (current_node s) s);
             parent_node = current_node s1
         in if is_full parent_node then split_node sha1 (level_from_leafs + 1) s1
            else create_children_till_leaf level_from_leafs
                   (set_current_node (node_insert sha1 parent_node) s1)))"
  by pat_completeness auto
termination
  by (relation "measure (\<lambda>(sha1, level_from_leafs, s). length (m_current_path s))")
    (auto simp: pop_back_def inserter_write_node_def)

declare split_node.simps [simp del]

definition insert_sorted :: "sha1_t \<Rightarrow> inserter \<Rightarrow> inserter" where
  "insert_sorted sha1 s =
     (if is_full (current_node s) then split_node sha1 0 s
      else set_current_node (push_back sha1 (current_node s)) s)"

text \<open>A stream of keys fed to \<^verbatim>\<open>insert_sorted\<close> one at a time.\<close>
fun insert_all :: "sha1_t list \<Rightarrow> inserter \<Rightarrow> inserter" where
  "insert_all [] s = s"
| "insert_all (sha1 # rest) s = insert_all rest (insert_sorted sha1 s)"

text \<open>
  The chain that \<^verbatim>\<open>create_children_till_leaf(L)\<close> appends, in closed form (section
  4.3.3 of the spec: \<open>L + 1\<close> empty nodes with fresh consecutive identifiers, each the
  child in slot 0 of the one before, the last one a leaf).  The argument is \<open>L\<close>.
\<close>
fun spine :: "order_t \<Rightarrow> pointer_t \<Rightarrow> pointer_t \<Rightarrow> nat \<Rightarrow> btree_node list" where
  "spine order parent_ptr ptr 0 =
     [(new_btree_node order parent_ptr)\<lparr>this_pointer := ptr, keys_count := 0, is_leaf := True\<rparr>]"
| "spine order parent_ptr ptr (Suc n) =
     (new_btree_node order parent_ptr)
        \<lparr>this_pointer := ptr, keys_count := 0, is_leaf := False,
         pointers := (pointers (new_btree_node order parent_ptr))[0 := ptr + 1]\<rparr>
     # spine order ptr (ptr + 1) n"

subsection \<open>Finalization\<close>

text \<open>
  What the model reports where the source has no defined result: the recursion budget of
  the model ran out, a vector was indexed outside its bounds (undefined behaviour in
  C++), the reader met a node it cannot search, or no flushed node had a key to lend.
\<close>
datatype error = Out_of_fuel | Out_of_bounds | Corrupt_file | No_key_to_lend

text \<open>The order of keys: \<^verbatim>\<open>memcmp\<close> over the 20 bytes (spec, section 3.1).\<close>
fun sha1_less :: "sha1_t \<Rightarrow> sha1_t \<Rightarrow> bool" where
  "sha1_less (a # as) (b # bs) = (a < b \<or> (a = b \<and> sha1_less as bs))"
| "sha1_less _ _ = False"

text \<open>
  Modelled from the spec: \<^verbatim>\<open>expected_min_number_of_keys()\<close> is called through
  \<^verbatim>\<open>this\<close> and defined nowhere in the sources; section 4.3.7 of the spec gives
  \<open>expected_min_keys_per_node = m\<close>.
\<close>
definition expected_min_number_of_keys :: "inserter \<Rightarrow> 32 word" where
  "expected_min_number_of_keys s = m_order s"

definition get_number_of_keys_taken_from_node_during_rebalance ::
    "inserter \<Rightarrow> btree_node \<Rightarrow> 32 word" where
  "get_number_of_keys_taken_from_node_during_rebalance s node =
     (case m_keys_took_by_provider s (this_pointer node) of None \<Rightarrow> 0 | Some taken \<Rightarrow> taken)"

definition get_number_of_keys_in_node_during_rebalance ::
    "inserter \<Rightarrow> btree_node \<Rightarrow> 32 word" where
  "get_number_of_keys_in_node_during_rebalance s node =
     keys_count node - get_number_of_keys_taken_from_node_during_rebalance s node"

text \<open>
  Modelled from the spec: \<^verbatim>\<open>get_greatest_not_visited_key()\<close> is called by
  \<^verbatim>\<open>rebalance_keys_in_node\<close> and defined nowhere in the sources.  Section 4.3.6 of the
  spec gives its contract: it yields the greatest not-yet-lent key among the flushed nodes
  to the left of the spine, taking the last live key of the donor (live keys are
  \<^verbatim>\<open>keys_count\<close> minus the count already lent), records the loan in
  \<^verbatim>\<open>keys_taken_from\<close> and leaves the donor's record as it is; nodes created during
  rebalancing lend nothing.
\<close>
definition donor_candidates :: "inserter \<Rightarrow> (pointer_t \<times> sha1_t) list" where
  "donor_candidates s =
     concat (map (\<lambda>i.
         let p = of_nat i;
             node = fst (read_node (m_order s) p (m_storage s));
             live = unat (get_number_of_keys_in_node_during_rebalance s node)
         in if p \<in> set (map this_pointer (m_current_path s))
               \<or> p \<in> m_nodes_created_during_rebalancing s
               \<or> live = 0 \<or> length (keys node) < live
            then [] else [(p, keys node ! (live - 1))])
       [0..<unat (m_next_node_ptr s)])"

fun greatest_candidate :: "(pointer_t \<times> sha1_t) list \<Rightarrow> (pointer_t \<times> sha1_t) option" where
  "greatest_candidate [] = None"
| "greatest_candidate (c # cs) =
     (case greatest_candidate cs of
        None \<Rightarrow> Some c
      | Some d \<Rightarrow> if sha1_less (snd c) (snd d) then Some d else Some c)"

definition get_greatest_not_visited_key :: "inserter \<Rightarrow> error + (sha1_t \<times> inserter)" where
  "get_greatest_not_visited_key s =
     (case greatest_candidate (donor_candidates s) of
        None \<Rightarrow> Inl No_key_to_lend
      | Some (p, key) \<Rightarrow>
          Inr (key, s\<lparr>m_keys_took_by_provider := (m_keys_took_by_provider s)
                 (p \<mapsto> (case m_keys_took_by_provider s p of None \<Rightarrow> 0 | Some taken \<Rightarrow> taken) + 1)\<rparr>))"

text \<open>
  \<^verbatim>\<open>create_nodes_to_fulfill_b_tree\<close> and its \<^verbatim>\<open>for\<close> loop.  The first argument is the
  recursion budget of the model: every call and every iteration takes one unit.
\<close>
fun create_nodes_to_fulfill_b_tree ::
    "nat \<Rightarrow> pointer_t \<Rightarrow> 32 word \<Rightarrow> inserter \<Rightarrow> error + inserter"
  and fulfill_loop ::
    "nat \<Rightarrow> 32 word \<Rightarrow> btree_node \<Rightarrow> bool \<Rightarrow> 32 word \<Rightarrow> 32 word \<Rightarrow> inserter
       \<Rightarrow> error + (btree_node \<times> inserter)" where
  "create_nodes_to_fulfill_b_tree 0 current_node_ptr level s = Inl Out_of_fuel"
| "create_nodes_to_fulfill_b_tree (Suc fuel) current_node_ptr level s =
     (let (node, s0) = inserter_read_node current_node_ptr s in
      if is_leaf node then Inr s0
      else if current_node_ptr = m_root_ptr s0 then
        (if unat (keys_count node) < length (pointers node)
         then create_nodes_to_fulfill_b_tree fuel (rightmost_pointer node) (level + 1) s0
         else Inl Out_of_bounds)
      else
        (let expected_min_number_of_children = expected_min_number_of_keys s0 + 1 in
         if keys_count node \<ge> expected_min_number_of_children then Inr s0
         else
           (let children_are_leafs = (level + 1 = m_tree_height s0) in
            case fulfill_loop fuel (children_count node - 1) node children_are_leafs level
                   expected_min_number_of_children s0 of
              Inl e \<Rightarrow> Inl e
            | Inr (node', s1) \<Rightarrow> Inr (inserter_write_node node' s1))))"
| "fulfill_loop 0 child_index node children_are_leafs level
     expected_min_number_of_children s = Inl Out_of_fuel"
| "fulfill_loop (Suc fuel) child_index node children_are_leafs level
     expected_min_number_of_children s =
     (if child_index < expected_min_number_of_children then
        (let (ptr, s1) = new_node_pointer s;
             child = (new_btree_node (m_order s1) (this_pointer node))
                       \<lparr>this_pointer := ptr, keys_count := 0, is_leaf := children_are_leafs\<rparr>;
             s2 = s1\<lparr>m_nodes_created_during_rebalancing :=
                       insert (this_pointer child) (m_nodes_created_during_rebalancing s1)\<rparr>;
             s3 = inserter_write_node child s2
         in if unat child_index < length (pointers node) then
              (let node' = node\<lparr>pointers :=
                             (pointers node)[unat child_index := this_pointer child]\<rparr>
               in if \<not> children_are_leafs then
                    (case create_nodes_to_fulfill_b_tree fuel (this_pointer child) (level + 1) s3 of
                       Inl e \<Rightarrow> Inl e
                     | Inr s4 \<Rightarrow> fulfill_loop fuel (child_index + 1) node' children_are_leafs
                                  level expected_min_number_of_children s4)
                  else fulfill_loop fuel (child_index + 1) node' children_are_leafs
                         level expected_min_number_of_children s3)
            else Inl Out_of_bounds)
      else Inr (node, s))"

text \<open>\<^verbatim>\<open>rebalance_keys_in_node\<close> and its \<^verbatim>\<open>for\<close> loop, with the same budget.\<close>
fun rebalance_keys_in_node :: "nat \<Rightarrow> btree_node \<Rightarrow> inserter \<Rightarrow> error + inserter"
  and rebalance_loop ::
    "nat \<Rightarrow> 32 word \<Rightarrow> 32 word \<Rightarrow> btree_node \<Rightarrow> bool \<Rightarrow> inserter
       \<Rightarrow> error + (btree_node \<times> inserter)" where
  "rebalance_keys_in_node 0 node s = Inl Out_of_fuel"
| "rebalance_keys_in_node (Suc fuel) node s =
     (if is_leaf node then Inr s
      else if keys_count node \<ge> expected_min_number_of_keys s then Inr s
      else
        (let number_of_keys = get_number_of_keys_in_node_during_rebalance s node in
         case rebalance_loop fuel (expected_min_number_of_keys s - 1) number_of_keys node
                False s of
           Inl e \<Rightarrow> Inl e
         | Inr (node', s1) \<Rightarrow>
             Inr (inserter_write_node
                    (node'\<lparr>keys_count := expected_min_number_of_keys s1\<rparr>) s1)))"
| "rebalance_loop 0 key_index number_of_keys node children_are_leafs s = Inl Out_of_fuel"
| "rebalance_loop (Suc fuel) key_index number_of_keys node children_are_leafs s =
     (if key_index \<ge> number_of_keys then
        (case (if \<not> children_are_leafs then
                 (if unat key_index < length (pointers node) then
                    (let child_ptr = pointers node ! unat key_index;
                         (child, s0) = inserter_read_node child_ptr s
                     in if is_leaf child then Inr (True, s0)
                        else (case rebalance_keys_in_node fuel child s0 of
                                Inl e \<Rightarrow> Inl e
                              | Inr s1 \<Rightarrow> Inr (False, s1)))
                  else Inl Out_of_bounds)
               else Inr (True, s)) of
           Inl e \<Rightarrow> Inl e
         | Inr (children_are_leafs', s2) \<Rightarrow>
             (case get_greatest_not_visited_key s2 of
                Inl e \<Rightarrow> Inl e
              | Inr (key, s3) \<Rightarrow>
                  if unat key_index < length (keys node) then
                    rebalance_loop fuel (key_index - 1) number_of_keys
                      (node\<lparr>keys := (keys node)[unat key_index := key]\<rparr>)
                      children_are_leafs' s3
                  else Inl Out_of_bounds))
      else Inr (node, s))"

definition rebalance_keys :: "nat \<Rightarrow> inserter \<Rightarrow> error + inserter" where
  "rebalance_keys fuel s =
     (let (root, s0) = inserter_read_node (m_root_ptr s) s in rebalance_keys_in_node fuel root s0)"

definition rebalance_tree :: "nat \<Rightarrow> inserter \<Rightarrow> error + inserter" where
  "rebalance_tree fuel s =
     (case create_nodes_to_fulfill_b_tree fuel (m_root_ptr s) 1 s of
        Inl e \<Rightarrow> Inl e
      | Inr s1 \<Rightarrow> rebalance_keys fuel s1)"

text \<open>The loop \<^verbatim>\<open>for (const auto& node : m_current_path) write_node(node)\<close>.\<close>
fun write_nodes :: "btree_node list \<Rightarrow> inserter \<Rightarrow> inserter" where
  "write_nodes [] s = s"
| "write_nodes (node # rest) s = write_nodes rest (inserter_write_node node s)"

definition finalize_inserting :: "nat \<Rightarrow> inserter \<Rightarrow> error + inserter" where
  "finalize_inserting fuel s = rebalance_tree fuel (write_nodes (m_current_path s) s)"

subsection \<open>Tree reader\<close>

text \<open>
  Modelled from the spec: \<^verbatim>\<open>btree.hpp\<close> with \<^verbatim>\<open>contains\<close> is not among the sources.
  Section 4.2 of the spec: start at the root pointer; binary search the live key prefix;
  if the key is found return true; otherwise let \<open>i\<close> be the insertion index; a leaf
  returns false, an interior node descends into \<^verbatim>\<open>pointers[i]\<close>.  A node whose
  \<^verbatim>\<open>keys_count\<close> exceeds its slots is a corrupt file (section 7).
\<close>
function lower_bound :: "sha1_t list \<Rightarrow> sha1_t \<Rightarrow> nat \<Rightarrow> nat \<Rightarrow> nat" where
  "lower_bound ks key lo hi =
     (if lo < hi then
        (let mid = (lo + hi) div 2 in
         if sha1_less (ks ! mid) key then lower_bound ks key (mid + 1) hi
         else lower_bound ks key lo mid)
      else lo)"
  by pat_completeness auto
termination
  by (relation "measure (\<lambda>(ks, key, lo, hi). hi - lo)") auto

declare lower_bound.simps [simp del]

fun contains :: "nat \<Rightarrow> order_t \<Rightarrow> pointer_t \<Rightarrow> storage \<Rightarrow> sha1_t \<Rightarrow> error + bool" where
  "contains 0 order ptr st key = Inl Out_of_fuel"
| "contains (Suc fuel) order ptr st key =
     (let (node, st') = read_node order ptr st;
          n = unat (keys_count node)
      in if length (keys node) < n then Inl Corrupt_file
         else
           (let i = lower_bound (keys node) key 0 n in
            if i < n \<and> keys node ! i = key then Inr True
            else if is_leaf node then Inr False
            else contains fuel order (pointers node ! i) st' key))"

definition reader_contains :: "nat \<Rightarrow> storage \<Rightarrow> sha1_t \<Rightarrow> error + bool" where
  "reader_contains fuel st key =
     (let ((order, root_ptr), st') = open_reader st in contains fuel order root_ptr st' key)"

text \<open>The root that the constructor puts on the path: an empty leaf with identifier 0.\<close>
definition root_leaf :: "order_t \<Rightarrow> btree_node" where
  "root_leaf order = (new_btree_node order k_unused_pointer)\<lparr>this_pointer := 0, is_leaf := True\<rparr>"

subsection \<open>Names for the frame statements\<close>

text \<open>The bytes of the record of node \<open>ptr\<close>, as \<^verbatim>\<open>read_node\<close> and \<^verbatim>\<open>write_node\<close> address it.\<close>
definition record_range :: "order_t \<Rightarrow> pointer_t \<Rightarrow> nat set" where
  "record_range order ptr =
     {unat (node_place order ptr) ..< unat (node_place order ptr) + binary_size order}"





subsection \<open>Concrete inputs\<close>

text \<open>The 20-byte big-endian integer \<open>i\<close> (for \<open>i < 256\<close>), and a zero-filled store.\<close>
definition example_key :: "nat \<Rightarrow> sha1_t" where
  "example_key i = replicate 19 0 @ [of_nat i]"

definition empty_storage :: storage where
  "empty_storage = \<lparr>bytes = (\<lambda>i. 0), in_pos = 0, out_pos = 0\<rparr>"

text \<open>A store that is not fresh: byte 4 holds 7, every other byte is zero.\<close>
definition stale_storage :: storage where
  "stale_storage = \<lparr>bytes = (\<lambda>i. if i = 4 then 7 else 0), in_pos = 0, out_pos = 0\<rparr>"

text \<open>An interior node of order 1 with one key and two children.\<close>
definition example_node :: btree_node where
  "example_node =
     \<lparr>is_leaf = False, keys_count = 1, pointers = [0, 2, k_unused_pointer],
      keys = [example_key 3, example_key 0],
      parent_pointer = k_unused_pointer, this_pointer = 1\<rparr>"

text \<open>
  Nodes of order 1, written out: a node with the given live pointers and the keys
  \<open>example_key k\<close>, the remaining slots as the constructor leaves them.
\<close>
definition example_tree_node ::
    "bool \<Rightarrow> pointer_t \<Rightarrow> pointer_t \<Rightarrow> pointer_t list \<Rightarrow> nat list \<Rightarrow> btree_node" where
  "example_tree_node leaf this parent ptrs ks =
     \<lparr>is_leaf = leaf, keys_count = of_nat (length ks),
      pointers = ptrs @ replicate (3 - length ptrs) k_unused_pointer,
      keys = map example_key ks @ replicate (2 - length ks) (replicate 20 0),
      parent_pointer = parent, this_pointer = this\<rparr>"

subsection \<open>Names for evaluating concrete builds\<close>

text \<open>The node and the header that a store holds, as \<^verbatim>\<open>read_node\<close> and the reading
  constructor decode them.\<close>
definition node_at :: "order_t \<Rightarrow> pointer_t \<Rightarrow> storage \<Rightarrow> btree_node" where
  "node_at order k st = fst (read_node order k st)"

definition header_at :: "storage \<Rightarrow> order_t \<times> pointer_t" where
  "header_at st = fst (open_reader st)"

text \<open>A build on a zero-filled store: the constructor, then the keys in order.\<close>
definition build :: "order_t \<Rightarrow> sha1_t list \<Rightarrow> inserter" where
  "build order ks = insert_all ks (btree_sorted_keys_inserter empty_storage order)"

text \<open>
  The builder of order 1 after the keys 1 to 8: height 2, the root (node 1) and the
  rightmost leaf (node 3) are full, the leaves 0 and 2 have been flushed to the store.
\<close>
definition example_builder :: inserter where
  "example_builder = build 1 (map example_key [1, 2, 3, 4, 5, 6, 7, 8])"


section \<open>Properties\<close>

subsection \<open>Hex codec\<close>

lemma byte_15_mask: "(15::byte) = mask 4"
  by (simp add: mask_eq_exp_minus_1)

lemma byte_240_mask: "(240::byte) = push_bit 4 (mask 4)"
  by (simp add: mask_eq_exp_minus_1 push_bit_eq_mult)

lemma nibble_cases:
  assumes "(n::byte) < 16"
  shows "n \<in> {0, 1, 2, 3, 4, 5, 6, 7, 8, 9, 10, 11, 12, 13, 14, 15}"
proof -
  from assms have "unat n < 16" by (simp add: word_less_nat_alt)
  then have "unat n \<in> {0, 1, 2, 3, 4, 5, 6, 7, 8, 9, 10, 11, 12, 13, 14, 15}"
    by simp arith
  then have "word_of_nat (unat n) \<in>
      ((word_of_nat ` {0, 1, 2, 3, 4, 5, 6, 7, 8, 9, 10, 11, 12, 13, 14, 15}) :: byte set)"
    by (rule imageI)
  then show ?thesis by simp
qed

lemma char_to_index_to_char: "n < 16 \<Longrightarrow> char_to_index (to_char n) = n"
  using nibble_cases [of n] by (auto simp: char_to_index_def to_char_def)

lemma to_char_hex_digit:
  "n < 16 \<Longrightarrow> to_char n \<in> {0x30, 0x31, 0x32, 0x33, 0x34, 0x35, 0x36, 0x37, 0x38, 0x39,
      0x41, 0x42, 0x43, 0x44, 0x45, 0x46}"
  using nibble_cases [of n] by (auto simp: to_char_def)

lemma low_nibble_less: "((b::byte) AND 0x0F) < 16"
  using and_mask_less' [of 4 b] by (simp add: byte_15_mask)

lemma high_nibble_less: "drop_bit 4 ((b::byte) AND 0xF0) < 16"
proof -
  have "drop_bit 4 (b AND 0xF0) = drop_bit 4 (b AND 0xF0) AND mask 4"
    unfolding byte_240_mask by (rule bit_eqI) (auto simp: bit_simps)
  also have "\<dots> < 2 ^ 4" by (rule and_mask_less') simp
  finally show ?thesis by simp
qed

lemma nibbles_join: "push_bit 4 (drop_bit 4 (b AND 0xF0)) OR (b AND 0x0F) = (b::byte)"
  unfolding byte_15_mask byte_240_mask by (rule bit_eqI) (auto simp: bit_simps)

lemma two_first_chars_of_byte: "two_first_chars_to_byte (hex_of_byte b @ rest) = b"
proof -
  have "char_to_index (to_char (drop_bit 4 (b AND 0xF0))) = drop_bit 4 (b AND 0xF0)"
    by (rule char_to_index_to_char [OF high_nibble_less])
  moreover have "char_to_index (to_char (b AND 0x0F)) = b AND 0x0F"
    by (rule char_to_index_to_char [OF low_nibble_less])
  ultimately show ?thesis
    unfolding two_first_chars_to_byte_def hex_of_byte_def
    by (simp only: append_Cons nth_Cons_0 nth_Cons_Suc One_nat_def nibbles_join)
qed

lemma hex_of_byte_upper:
  "set (hex_of_byte x) \<subseteq> {0x30, 0x31, 0x32, 0x33, 0x34, 0x35, 0x36, 0x37, 0x38, 0x39,
      0x41, 0x42, 0x43, 0x44, 0x45, 0x46}"
  using to_char_hex_digit [OF high_nibble_less [of x]]
    to_char_hex_digit [OF low_nibble_less [of x]]
  unfolding hex_of_byte_def by (simp only: list.set insert_subset empty_subsetI simp_thms)

lemma length_hex_of_byte: "length (hex_of_byte b) = 2"
  by (simp add: hex_of_byte_def)

lemma binary_sha1_loop_eq:
  "binary_sha1_loop bs result = result @ concat (map hex_of_byte bs)"
  by (induction bs arbitrary: result) (simp_all add: hex_of_byte_def Let_def)

lemma length_concat_hex: "length (concat (map hex_of_byte bs)) = 2 * length bs"
  by (induction bs) (simp_all add: length_hex_of_byte)

lemma drop_concat_hex:
  "j \<le> length bs \<Longrightarrow>
     drop (2 * j) (concat (map hex_of_byte bs)) = concat (map hex_of_byte (drop j bs))"
proof (induction bs arbitrary: j)
  case Nil
  then show ?case by simp
next
  case (Cons b bs)
  show ?case
  proof (cases j)
    case 0
    then show ?thesis by simp
  next
    case (Suc k)
    with Cons.prems have "k \<le> length bs" by simp
    from Cons.IH [OF this] Suc show ?thesis by (simp add: length_hex_of_byte)
  qed
qed

lemma two_first_chars_drop:
  assumes "j < length bs"
  shows "two_first_chars_to_byte (drop (2 * j) (concat (map hex_of_byte bs))) = bs ! j"
proof -
  from assms obtain b rest where d: "drop j bs = b # rest" and b: "b = bs ! j"
    by (metis Cons_nth_drop_Suc)
  from assms have "j \<le> length bs" by simp
  from drop_concat_hex [OF this] d
  have "drop (2 * j) (concat (map hex_of_byte bs)) = hex_of_byte b @ concat (map hex_of_byte rest)"
    by simp
  then show ?thesis using b by (simp add: two_first_chars_of_byte)
qed

lemma string_sha1_loop_eq:
  "length sha1 = 20 \<Longrightarrow> j \<le> 20 \<Longrightarrow>
     string_sha1_loop (2 * j) sha1_text sha1 =
       take j sha1 @ map (\<lambda>k. two_first_chars_to_byte (drop (2 * k) sha1_text)) [j..<20]"
proof (induction "20 - j" arbitrary: j sha1)
  case 0
  then have "j = 20" by simp
  with "0.prems" show ?case by (simp add: string_sha1_loop.simps [of 40])
next
  case (Suc d)
  then have j: "j < 20" and d: "d = 20 - Suc j" by simp_all
  have len: "length (sha1[j := two_first_chars_to_byte (drop (2 * j) sha1_text)]) = 20"
    using Suc.prems by simp
  have step: "string_sha1_loop (2 * j) sha1_text sha1 =
      string_sha1_loop (2 * Suc j) sha1_text
        (sha1[j := two_first_chars_to_byte (drop (2 * j) sha1_text)])"
    using j by (subst string_sha1_loop.simps) simp
  have "take (Suc j) (sha1[j := two_first_chars_to_byte (drop (2 * j) sha1_text)]) =
      take j sha1 @ [two_first_chars_to_byte (drop (2 * j) sha1_text)]"
    using j Suc.prems by (simp add: take_Suc_conv_app_nth)
  moreover have "[j..<20] = j # [Suc j..<20]"
    using j by (simp add: upt_conv_Cons)
  ultimately show ?case
    using Suc.hyps(1) [OF d len] j by (simp add: step)
qed

lemma binary_sha1_to_string_eq: "binary_sha1_to_string b = concat (map hex_of_byte b)"
  by (simp add: binary_sha1_to_string_def binary_sha1_loop_eq)

lemma string_sha1_to_binary_roundtrip:
  assumes "length b = 20"
  shows "string_sha1_to_binary (binary_sha1_to_string b) = Some b"
proof -
  let ?txt = "concat (map hex_of_byte b)"
  have "string_sha1_loop (2 * 0) ?txt (replicate 20 0) =
      take 0 (replicate 20 0) @ map (\<lambda>k. two_first_chars_to_byte (drop (2 * k) ?txt)) [0..<20]"
    by (rule string_sha1_loop_eq) simp_all
  also have "\<dots> = map (\<lambda>k. b ! k) [0..<20]"
    using assms by (simp add: two_first_chars_drop)
  also have "\<dots> = b"
    using assms map_nth [of b] by simp
  finally show ?thesis
    using assms
    by (simp add: string_sha1_to_binary_def binary_sha1_to_string_eq length_concat_hex)
qed

lemma binary_sha1_to_string_upper:
  "set (binary_sha1_to_string b) \<subseteq> set (map of_char ''0123456789ABCDEF'')"
proof
  fix c assume "c \<in> set (binary_sha1_to_string b)"
  then obtain x where "c \<in> set (hex_of_byte x)"
    by (auto simp: binary_sha1_to_string_eq)
  with hex_of_byte_upper [of x]
  have "c \<in> {0x30, 0x31, 0x32, 0x33, 0x34, 0x35, 0x36, 0x37, 0x38, 0x39,
      0x41, 0x42, 0x43, 0x44, 0x45, 0x46}"
    by (rule subsetD)
  then show "c \<in> set (map of_char ''0123456789ABCDEF'')" by auto
qed

text \<open>
  \<^bold>\<open>Claim C10.\<close> For every 20-byte array \<open>b\<close>, decoding the text that
  \<^verbatim>\<open>binary_sha1_to_string\<close> produces gives \<open>b\<close> back; the text has 40 characters,
  all of them among the sixteen upper-case hex digits; and \<^verbatim>\<open>char_to_index\<close> sends the
  upper-case and the lower-case form of every hex digit to the same value 0..15.
\<close>
theorem hex_codec_roundtrip:
  "length b = 20 \<Longrightarrow>
     string_sha1_to_binary (binary_sha1_to_string b) = Some b
     \<and> length (binary_sha1_to_string b) = 40
     \<and> set (binary_sha1_to_string b) \<subseteq> set (map of_char ''0123456789ABCDEF'')
     \<and> map char_to_index (map of_char ''0123456789ABCDEF'') =
           [0, 1, 2, 3, 4, 5, 6, 7, 8, 9, 10, 11, 12, 13, 14, 15]
     \<and> map char_to_index (map of_char ''0123456789abcdef'') =
           [0, 1, 2, 3, 4, 5, 6, 7, 8, 9, 10, 11, 12, 13, 14, 15]"
proof (intro conjI)
  assume len: "length b = 20"
  show "string_sha1_to_binary (binary_sha1_to_string b) = Some b"
    by (rule string_sha1_to_binary_roundtrip [OF len])
  show "length (binary_sha1_to_string b) = 40"
    using len by (simp add: binary_sha1_to_string_eq length_concat_hex)
  show "set (binary_sha1_to_string b) \<subseteq> set (map of_char ''0123456789ABCDEF'')"
    by (rule binary_sha1_to_string_upper)
  show "map char_to_index (map of_char ''0123456789ABCDEF'') =
      [0, 1, 2, 3, 4, 5, 6, 7, 8, 9, 10, 11, 12, 13, 14, 15]"
    by (simp add: char_to_index_def)
  show "map char_to_index (map of_char ''0123456789abcdef'') =
      [0, 1, 2, 3, 4, 5, 6, 7, 8, 9, 10, 11, 12, 13, 14, 15]"
    by (simp add: char_to_index_def)
qed

theorem hex_codec_roundtrip_witness:
  "string_sha1_to_binary (binary_sha1_to_string
      [0xDA, 0x39, 0xA3, 0xEE, 0x5E, 0x6B, 0x4B, 0x0D, 0x32, 0x55,
       0xBF, 0xEF, 0x95, 0x60, 0x18, 0x90, 0xAF, 0xD8, 0x07, 0x09])
     = Some [0xDA, 0x39, 0xA3, 0xEE, 0x5E, 0x6B, 0x4B, 0x0D, 0x32, 0x55,
       0xBF, 0xEF, 0x95, 0x60, 0x18, 0x90, 0xAF, 0xD8, 0x07, 0x09]
   \<and> binary_sha1_to_string
      [0xDA, 0x39, 0xA3, 0xEE, 0x5E, 0x6B, 0x4B, 0x0D, 0x32, 0x55,
       0xBF, 0xEF, 0x95, 0x60, 0x18, 0x90, 0xAF, 0xD8, 0x07, 0x09]
     = map of_char ''DA39A3EE5E6B4B0D3255BFEF95601890AFD80709''"
proof -
  have "length [0xDA, 0x39, 0xA3, 0xEE, 0x5E, 0x6B, 0x4B, 0x0D, 0x32, 0x55,
       0xBF, 0xEF, 0x95, 0x60, 0x18, 0x90, 0xAF, 0xD8, 0x07, 0x09 :: byte] = 20"
    by simp
  from hex_codec_roundtrip [OF this] show ?thesis
    by (simp add: binary_sha1_to_string_def to_char_def)
qed

subsection \<open>Page codec\<close>

lemma le_word_le_bytes32: "le_word (le_bytes 4 (w::32 word)) = w"
proof -
  have u: "[0..<4] = [0, 1, 2, 3]" by (simp add: upt_conv_Cons)
  show ?thesis
    unfolding le_bytes_def u
  proof (rule bit_eqI)
    fix n assume "possible_bit TYPE(32 word) n"
    then have n: "n < 32" by simp
    consider "n < 8" | "8 \<le> n" "n < 16" | "16 \<le> n" "n < 24" | "24 \<le> n" "n < 32"
      using n by linarith
    then show "bit (le_word (map (\<lambda>i. ucast (drop_bit (8 * i) w)) [0, 1, 2, 3]) :: 32 word) n = bit w n"
    proof cases
      case 1 then show ?thesis by (simp add: bit_simps)
    next
      case 2 then show ?thesis by (auto simp: bit_simps)
    next
      case 3 then show ?thesis by (auto simp: bit_simps)
    next
      case 4 then show ?thesis by (auto simp: bit_simps)
    qed
  qed
qed

lemma length_le_bytes: "length (le_bytes n w) = n"
  by (simp add: le_bytes_def)

lemma chunks_concat:
  "length xss = k \<Longrightarrow> list_all (\<lambda>x. length x = n) xss \<Longrightarrow> chunks k n (concat xss) = xss"
  by (induction k n "concat xss" arbitrary: xss rule: chunks.induct) (auto simp: length_Suc_conv)

lemma bytes_bool_bool_bytes: "bytes_bool (bool_bytes b) = b"
  by (simp add: bytes_bool_def bool_bytes_def)

lemma bytes_storage_write:
  "bytes (storage_write bs st) i =
     (if out_pos st \<le> i \<and> i < out_pos st + length bs then bs ! (i - out_pos st) else bytes st i)"
  by (simp add: storage_write_def)

lemma out_pos_storage_write: "out_pos (storage_write bs st) = out_pos st + length bs"
  by (simp add: storage_write_def)

lemma bytes_at_write_same:
  "bytes_at (storage_write bs st) (out_pos st) (length bs) = bs"
  by (auto simp: bytes_at_def storage_write_def intro!: nth_equalityI)

lemma in_pos_storage_write: "in_pos (storage_write bs st) = in_pos st"
  by (simp add: storage_write_def)
lemma more_storage_write: "storage.more (storage_write bs st) = storage.more st"
  by (simp add: storage_write_def)

lemma storage_write_append:
  "storage_write b (storage_write a st) = storage_write (a @ b) st"
proof (rule storage.equality)
  show "bytes (storage_write b (storage_write a st)) = bytes (storage_write (a @ b) st)"
  proof (rule ext)
    fix i
    show "bytes (storage_write b (storage_write a st)) i = bytes (storage_write (a @ b) st) i"
      unfolding bytes_storage_write out_pos_storage_write
      by (cases "i < out_pos st + length a") (auto simp: nth_append)
  qed
qed (simp_all add: out_pos_storage_write in_pos_storage_write more_storage_write)

lemma write_node_eq:
  "write_node order node st =
     storage_write (node_bytes order node) (seek_out (unat (node_place order (this_pointer node))) st)"
  by (simp add: write_node_def node_bytes_def storage_write_append Let_def)

lemma bytes_at_add: "bytes_at st off (a + b) = bytes_at st off a @ bytes_at st (off + a) b"
proof -
  have "[off..<off + a + b] = [off..<off + a] @ [off + a..<off + a + b]"
    by (rule upt_add_eq_append) simp
  then show ?thesis by (simp add: bytes_at_def add.assoc)
qed

lemma take_bytes_at: "a \<le> n \<Longrightarrow> take a (bytes_at st off n) = bytes_at st off a"
  by (simp add: bytes_at_def take_map)

lemma drop_bytes_at: "drop a (bytes_at st off n) = bytes_at st (off + a) (n - a)"
  by (cases "a \<le> n") (simp_all add: bytes_at_def drop_map add.commute)

lemma storage_read_eq:
  "storage_read n st = (bytes_at st (in_pos st) n, st\<lparr>in_pos := in_pos st + n\<rparr>)"
  by (simp add: storage_read_def bytes_at_def)

lemma bytes_at_in_pos [simp]: "bytes_at (st\<lparr>in_pos := p\<rparr>) off n = bytes_at st off n"
  by (simp add: bytes_at_def)

lemma read_node_eq:
  "read_node order ptr st =
     (decode_node order ptr (bytes_at st (unat (node_place order ptr)) (binary_size order)),
      st\<lparr>in_pos := unat (node_place order ptr) + binary_size order\<rparr>)"
  by (simp add: read_node_def decode_node_def storage_read_eq seek_in_def Let_def
      new_btree_node_def binary_size_def take_bytes_at drop_bytes_at
      sizeof_pointer_def add_ac)

lemma length_concat_le_bytes: "length (concat (map (le_bytes n) ps)) = n * length ps"
  by (induction ps) (simp_all add: length_le_bytes)

lemma length_concat_keys:
  "list_all (\<lambda>k. length k = n) ks \<Longrightarrow> length (concat ks) = n * length ks"
  by (induction ks) simp_all

lemma length_node_bytes: "wf_node order n \<Longrightarrow> length (node_bytes order n) = binary_size order"
  by (simp add: node_bytes_def wf_node_def binary_size_def bool_bytes_def length_le_bytes
      length_concat_le_bytes length_concat_keys [where n = 20]
      binary_pointers_size_def binary_keys_size_def sizeof_pointer_def)

lemma segments:
  assumes "length a = 1" "length b = 4" "length c = P" "length d = K"
  shows "take 1 (a @ b @ c @ d @ e) = a"
    and "take 4 (drop 1 (a @ b @ c @ d @ e)) = b"
    and "take P (drop 5 (a @ b @ c @ d @ e)) = c"
    and "take K (drop (5 + P) (a @ b @ c @ d @ e)) = d"
    and "drop (5 + P + K) (a @ b @ c @ d @ e) = e"
  using assms by simp_all

lemma decode_node_bytes:
  assumes "wf_node order n"
  shows "decode_node order ptr (node_bytes order n) = n\<lparr>this_pointer := ptr\<rparr>"
proof -
  let ?A = "bool_bytes (is_leaf n)"
  let ?B = "le_bytes 4 (keys_count n)"
  let ?P = "concat (map (le_bytes sizeof_pointer) (pointers n))"
  let ?K = "concat (keys n)"
  let ?E = "le_bytes sizeof_pointer (parent_pointer n)"
  from assms have lp: "length ?P = binary_pointers_size order"
    and lk: "length ?K = binary_keys_size order"
    by (simp_all add: wf_node_def length_concat_le_bytes length_concat_keys [where n = 20]
        binary_pointers_size_def binary_keys_size_def)
  have nb: "node_bytes order n = ?A @ ?B @ ?P @ ?K @ ?E"
    by (simp add: node_bytes_def lp lk)
  have la: "length ?A = 1" by (simp add: bool_bytes_def)
  have lb: "length ?B = 4" by (simp add: length_le_bytes)
  note seg = segments [OF la lb lp lk, of ?E]
  have cp: "chunks (2 * unat order + 1) sizeof_pointer ?P = map (le_bytes sizeof_pointer) (pointers n)"
    using assms by (intro chunks_concat) (simp_all add: wf_node_def list_all_iff length_le_bytes)
  have ck: "chunks (2 * unat order) 20 ?K = keys n"
    using assms by (intro chunks_concat) (simp_all add: wf_node_def)
  have pm: "map le_word (map (le_bytes sizeof_pointer) (pointers n)) = pointers n"
    by (simp add: sizeof_pointer_def le_word_le_bytes32 comp_def)
  have e: "le_word (take sizeof_pointer ?E) = parent_pointer n"
    by (simp add: sizeof_pointer_def le_word_le_bytes32 length_le_bytes)
  show ?thesis
    unfolding decode_node_def nb seg cp ck pm e
    by (simp add: bytes_bool_bool_bytes le_word_le_bytes32)
qed

lemma bytes_at_write_node:
  "wf_node order n \<Longrightarrow>
   bytes_at (write_node order n st) (unat (node_place order (this_pointer n))) (binary_size order)
     = node_bytes order n"
  using bytes_at_write_same [of "node_bytes order n" "seek_out (unat (node_place order (this_pointer n))) st"]
  by (simp add: write_node_eq length_node_bytes seek_out_def)

lemma read_write_node: "wf_node order n \<Longrightarrow> fst (read_node order (this_pointer n) (write_node order n st)) = n"
  by (simp add: read_node_eq bytes_at_write_node decode_node_bytes)

lemma write_node_frame:
  "wf_node order n \<Longrightarrow>
   i < unat (node_place order (this_pointer n)) \<or>
   unat (node_place order (this_pointer n)) + binary_size order \<le> i \<Longrightarrow>
   bytes (write_node order n st) i = bytes st i"
  by (auto simp: write_node_eq bytes_storage_write seek_out_def length_node_bytes)

lemma unat_ucast_pointer: "unat (ucast (p::32 word) :: 64 word) = unat p"
proof -
  have "unat p < 2 ^ 32" using unsigned_less [of p, where 'a=nat] by simp
  then have "unat p < 2 ^ 64" by simp
  then show ?thesis by (simp add: unsigned_ucast_eq take_bit_nat_eq_self)
qed

lemma unat_node_place:
  "unat (node_place order ptr) = (8 + unat ptr * binary_size order) mod 2 ^ 64"
  by (simp add: node_place_def tree_offset_def sizeof_pointer_def unat_word_ariths unat_of_nat
       mod_simps mult.commute unat_ucast_pointer)

lemma wf_example_node: "wf_node 1 example_node"
  by (simp add: wf_node_def example_node_def example_key_def)

text \<open>
  \<^bold>\<open>Claim C6.\<close> Page codec round trip: for every order and every node sized for that
  order, \<^verbatim>\<open>write_node(n)\<close> followed by \<^verbatim>\<open>read_node(n.this_pointer)\<close> on the same
  store yields a node equal to \<open>n\<close> on all fields.
\<close>
theorem page_codec_roundtrip:
  "wf_node order n \<Longrightarrow>
     (let r = fst (read_node order (this_pointer n) (write_node order n st)) in
        is_leaf r = is_leaf n \<and> keys_count r = keys_count n \<and> pointers r = pointers n \<and>
        keys r = keys n \<and> parent_pointer r = parent_pointer n \<and>
        this_pointer r = this_pointer n \<and> r = n)"
proof -
  assume "wf_node order n"
  then have "fst (read_node order (this_pointer n) (write_node order n st)) = n"
    by (rule read_write_node)
  then show ?thesis
    unfolding Let_def by simp
qed

theorem page_codec_roundtrip_witness:
  "wf_node 1 example_node \<and>
   fst (read_node 1 (this_pointer example_node) (write_node 1 example_node empty_storage))
     = example_node"
  using page_codec_roundtrip [OF wf_example_node, of empty_storage] wf_example_node
  by (simp add: Let_def)

text \<open>
  \<^bold>\<open>Claim C7\<close> as stated fails where the product leaves 64 bits: the position is computed in
  \<^verbatim>\<open>uint64_t\<close>, so for order \<open>2\<^sup>3\<^sup>2 - 1\<close> and identifier \<open>2\<^sup>3\<^sup>2 - 2\<close> the record is not
  addressed at \<open>tree_offset + k * binary_size(m)\<close>.
\<close>
theorem node_place_wraps:
  "unat (node_place 0xFFFFFFFF 0xFFFFFFFE) \<noteq>
     unat tree_offset + unat (0xFFFFFFFE :: pointer_t) * binary_size 0xFFFFFFFF"
  by (simp add: unat_node_place tree_offset_def binary_size_def binary_pointers_size_def
      binary_keys_size_def sizeof_pointer_def)

text \<open>
  \<^bold>\<open>Claim C7\<close>, amended.  \<^verbatim>\<open>tree_offset = 4 + sizeof(pointer)\<close>; \<^verbatim>\<open>read_node\<close> and
  \<^verbatim>\<open>write_node\<close> address the record of node \<open>k\<close> at byte offset
  \<open>(tree_offset + k * binary_size(m)) mod 2\<^sup>6\<^sup>4\<close>, which is \<open>tree_offset + k * binary_size(m)\<close>
  whenever that is below \<open>2\<^sup>6\<^sup>4\<close>; \<^verbatim>\<open>write_node\<close> lays the fields out there in the order
  \<^verbatim>\<open>is_leaf\<close>, \<^verbatim>\<open>keys_count\<close>, \<^verbatim>\<open>pointers\<close>, \<^verbatim>\<open>keys\<close>, \<^verbatim>\<open>parent_pointer\<close> and
  writes no other byte; \<^verbatim>\<open>read_node\<close> decodes the same block in the same order.
\<close>
theorem node_record_layout:
  "wf_node order n \<Longrightarrow>
     unat tree_offset = 4 + sizeof_pointer
   \<and> unat (node_place order k) = (unat tree_offset + unat k * binary_size order) mod 2 ^ 64
   \<and> (unat tree_offset + unat k * binary_size order < 2 ^ 64 \<longrightarrow>
        unat (node_place order k) = unat tree_offset + unat k * binary_size order)
   \<and> bytes_at (write_node order n st) (unat (node_place order (this_pointer n)))
        (binary_size order)
       = bool_bytes (is_leaf n) @ le_bytes 4 (keys_count n) @
         concat (map (le_bytes sizeof_pointer) (pointers n)) @ concat (keys n) @
         le_bytes sizeof_pointer (parent_pointer n)
   \<and> (\<forall>i. i < unat (node_place order (this_pointer n)) \<or>
            unat (node_place order (this_pointer n)) + binary_size order \<le> i \<longrightarrow>
          bytes (write_node order n st) i = bytes st i)
   \<and> fst (read_node order k st') =
        decode_node order k (bytes_at st' (unat (node_place order k)) (binary_size order))"
proof (intro conjI allI impI)
  assume wf: "wf_node order n"
  show off: "unat tree_offset = 4 + sizeof_pointer"
    by (simp add: tree_offset_def sizeof_pointer_def)
  show place: "unat (node_place order k) =
      (unat tree_offset + unat k * binary_size order) mod 2 ^ 64"
    by (simp add: unat_node_place off sizeof_pointer_def)
  show "unat (node_place order k) = unat tree_offset + unat k * binary_size order"
    if "unat tree_offset + unat k * binary_size order < 2 ^ 64"
    using that by (simp add: place)
  from wf have lp: "length (concat (map (le_bytes sizeof_pointer) (pointers n))) =
      binary_pointers_size order"
    and lk: "length (concat (keys n)) = binary_keys_size order"
    by (simp_all add: wf_node_def length_concat_le_bytes length_concat_keys [where n = 20]
        binary_pointers_size_def binary_keys_size_def)
  show "bytes_at (write_node order n st) (unat (node_place order (this_pointer n)))
        (binary_size order)
       = bool_bytes (is_leaf n) @ le_bytes 4 (keys_count n) @
         concat (map (le_bytes sizeof_pointer) (pointers n)) @ concat (keys n) @
         le_bytes sizeof_pointer (parent_pointer n)"
    by (simp add: bytes_at_write_node [OF wf] node_bytes_def lp lk)
  show "bytes (write_node order n st) i = bytes st i"
    if "i < unat (node_place order (this_pointer n)) \<or>
        unat (node_place order (this_pointer n)) + binary_size order \<le> i" for i
    using wf that by (rule write_node_frame)
  show "fst (read_node order k st') =
      decode_node order k (bytes_at st' (unat (node_place order k)) (binary_size order))"
    by (simp add: read_node_eq)
qed

theorem node_record_layout_witness:
  "wf_node 1 example_node
   \<and> unat (node_place 1 1) = 8 + 1 * 61
   \<and> bytes_at (write_node 1 example_node empty_storage) 69 61 =
       [0] @ [1, 0, 0, 0] @
       ([0, 0, 0, 0] @ [2, 0, 0, 0] @ [0xFF, 0xFF, 0xFF, 0xFF]) @
       (example_key 3 @ example_key 0) @ [0xFF, 0xFF, 0xFF, 0xFF]
   \<and> bytes (write_node 1 example_node empty_storage) 68 = 0
   \<and> bytes (write_node 1 example_node empty_storage) 130 = 0"
proof -
  have b: "binary_size 1 = 61"
    by (simp add: binary_size_def binary_pointers_size_def binary_keys_size_def
        sizeof_pointer_def)
  have u: "[0..<4] = [0, 1, 2, 3]" by (simp add: upt_conv_Cons)
  from node_record_layout [OF wf_example_node, of 1 empty_storage empty_storage]
  have p: "unat (node_place 1 1) = 69"
    and l: "bytes_at (write_node 1 example_node empty_storage)
        (unat (node_place 1 (this_pointer example_node))) (binary_size 1) =
      bool_bytes (is_leaf example_node) @ le_bytes 4 (keys_count example_node) @
      concat (map (le_bytes sizeof_pointer) (pointers example_node)) @
      concat (keys example_node) @ le_bytes sizeof_pointer (parent_pointer example_node)"
    and f: "\<forall>i. i < unat (node_place 1 (this_pointer example_node)) \<or>
            unat (node_place 1 (this_pointer example_node)) + binary_size 1 \<le> i \<longrightarrow>
          bytes (write_node 1 example_node empty_storage) i = bytes empty_storage i"
    by (simp_all add: b tree_offset_def sizeof_pointer_def)
  have t: "this_pointer example_node = 1" by (simp add: example_node_def)
  from f have "bytes (write_node 1 example_node empty_storage) 68 = 0"
    and "bytes (write_node 1 example_node empty_storage) 130 = 0"
    by (simp_all add: t p b empty_storage_def)
  moreover from l have "bytes_at (write_node 1 example_node empty_storage) 69 61 =
       [0] @ [1, 0, 0, 0] @
       ([0, 0, 0, 0] @ [2, 0, 0, 0] @ [0xFF, 0xFF, 0xFF, 0xFF]) @
       (example_key 3 @ example_key 0) @ [0xFF, 0xFF, 0xFF, 0xFF]"
    unfolding t p b
    by (simp add: example_node_def bool_bytes_def le_bytes_def u sizeof_pointer_def
        k_unused_pointer_def)
  ultimately show ?thesis using wf_example_node p by simp
qed

subsection \<open>Insertion\<close>

lemma create_children_till_leaf_spine:
  "m_current_path s = rest @ [parent] \<Longrightarrow>
   create_children_till_leaf L s =
     s\<lparr>m_next_node_ptr := m_next_node_ptr s + L + 1,
       m_current_path :=
         rest @ [parent\<lparr>pointers :=
                   (pointers parent)[unat (keys_count parent) := m_next_node_ptr s]\<rparr>]
         @ spine (m_order s) (this_pointer parent) (m_next_node_ptr s) (unat L)\<rparr>"
proof (induction "unat L" arbitrary: L s rest parent)
  case 0
  then have L: "L = 0" by (simp add: unat_eq_zero)
  show ?case
    using "0.prems"
    by (subst create_children_till_leaf.simps)
       (simp add: L Let_def new_node_pointer_def emplace_back_def current_node_def
          nth_append list_update_append)
next
  case (Suc n)
  then have L: "L \<noteq> 0" by auto
  from Suc.hyps(2) L have n: "n = unat (L - 1)" by (simp add: unat_minus_one)
  let ?node = "(new_btree_node (m_order s) (this_pointer parent))
                 \<lparr>this_pointer := m_next_node_ptr s, keys_count := 0, is_leaf := False\<rparr>"
  let ?parent' = "parent\<lparr>pointers :=
                   (pointers parent)[unat (keys_count parent) := m_next_node_ptr s]\<rparr>"
  let ?s3 = "s\<lparr>m_next_node_ptr := m_next_node_ptr s + 1,
               m_current_path := (rest @ [?parent']) @ [?node]\<rparr>"
  have step: "create_children_till_leaf L s = create_children_till_leaf (L - 1) ?s3"
    using Suc.prems L
    by (subst create_children_till_leaf.simps)
       (simp add: Let_def new_node_pointer_def emplace_back_def current_node_def
          nth_append list_update_append)
  have p: "m_current_path ?s3 = (rest @ [?parent']) @ [?node]" by simp
  show ?case
    unfolding step Suc.hyps(1) [OF n p]
    using Suc.hyps(2) [symmetric]
    by (simp add: new_btree_node_def n [symmetric])
qed

lemma split_node_parent_full:
  assumes "m_current_path s = rest' @ [parent, leaf]" "is_full parent"
  shows "split_node sha1 L s =
     split_node sha1 (L + 1)
       (s\<lparr>m_storage := write_node (m_order s) leaf (m_storage s),
          m_current_path := rest' @ [parent]\<rparr>)"
  using assms
  by (subst split_node.simps)
     (simp add: Let_def pop_back_def inserter_write_node_def current_node_def butlast_append)

lemma split_node_parent_not_full:
  assumes "m_current_path s = rest' @ [parent, leaf]" "\<not> is_full parent"
  shows "split_node sha1 L s =
     s\<lparr>m_storage := write_node (m_order s) leaf (m_storage s),
       m_next_node_ptr := m_next_node_ptr s + L + 1,
       m_current_path :=
         rest' @ [parent\<lparr>keys := (keys parent)[unat (keys_count parent) := sha1],
                         keys_count := keys_count parent + 1,
                         pointers := (pointers parent)
                           [unat (keys_count parent + 1) := m_next_node_ptr s]\<rparr>]
         @ spine (m_order s) (this_pointer parent) (m_next_node_ptr s) (unat L)\<rparr>"
proof -
  let ?s1 = "set_current_node (node_insert sha1 parent)
               (pop_back (inserter_write_node leaf s))"
  have p: "m_current_path ?s1 = rest' @ [node_insert sha1 parent]"
    using assms(1)
    by (simp add: set_current_node_def pop_back_def inserter_write_node_def butlast_append)
  have "split_node sha1 L s = create_children_till_leaf L ?s1"
    using assms
    by (subst split_node.simps)
       (simp add: Let_def pop_back_def inserter_write_node_def current_node_def butlast_append)
  also note create_children_till_leaf_spine [OF p]
  finally show ?thesis
    by (simp add: set_current_node_def pop_back_def inserter_write_node_def node_insert_def)
qed

lemma split_root_and_grow_eq:
  assumes "m_current_path s = [leaf]"
  shows "split_root_and_grow sha1 L s =
      (let s3 = s\<lparr>m_next_node_ptr := m_next_node_ptr s + 1,
                  m_storage := write_node (m_order s) (leaf\<lparr>parent_pointer := m_next_node_ptr s\<rparr>)
                    (m_storage s),
                  m_current_path := [] @ [\<lparr>is_leaf = False, keys_count = 1,
           pointers = (replicate (2 * unat (m_order s) + 1) k_unused_pointer)
                        [0 := this_pointer leaf],
           keys = (replicate (2 * unat (m_order s)) (replicate 20 0))[0 := sha1],
           parent_pointer = k_unused_pointer,
           this_pointer = m_next_node_ptr s\<rparr>]\<rparr>;
           s5 = set_root_ptr (m_next_node_ptr s) (create_children_till_leaf L s3)
       in s5\<lparr>m_tree_height := m_tree_height s5 + 1\<rparr>)"
  unfolding split_root_and_grow_def Let_def new_node_pointer_def current_node_def
    pop_back_def inserter_write_node_def emplace_back_def node_insert_def new_btree_node_def
  using assms by simp

lemma split_node_root:
  assumes "m_current_path s = [leaf]"
  shows "split_node sha1 L s =
     s\<lparr>m_storage :=
         storage_write (le_bytes sizeof_pointer (m_next_node_ptr s))
           (seek_out 4 (write_node (m_order s) (leaf\<lparr>parent_pointer := m_next_node_ptr s\<rparr>)
              (m_storage s))),
       m_root_ptr := m_next_node_ptr s,
       m_next_node_ptr := m_next_node_ptr s + 1 + L + 1,
       m_tree_height := m_tree_height s + 1,
       m_current_path :=
         [\<lparr>is_leaf = False, keys_count = 1,
           pointers = (replicate (2 * unat (m_order s) + 1) k_unused_pointer)
                        [0 := this_pointer leaf, unat (1 :: 32 word) := m_next_node_ptr s + 1],
           keys = (replicate (2 * unat (m_order s)) (replicate 20 0))[0 := sha1],
           parent_pointer = k_unused_pointer,
           this_pointer = m_next_node_ptr s\<rparr>]
         @ spine (m_order s) (m_next_node_ptr s) (m_next_node_ptr s + 1) (unat L)\<rparr>"
proof -
  let ?new_root = "\<lparr>is_leaf = False, keys_count = 1,
           pointers = (replicate (2 * unat (m_order s) + 1) k_unused_pointer)
                        [0 := this_pointer leaf],
           keys = (replicate (2 * unat (m_order s)) (replicate 20 0))[0 := sha1],
           parent_pointer = k_unused_pointer,
           this_pointer = m_next_node_ptr s\<rparr>"
  let ?s3 = "s\<lparr>m_next_node_ptr := m_next_node_ptr s + 1,
            m_storage := write_node (m_order s) (leaf\<lparr>parent_pointer := m_next_node_ptr s\<rparr>)
              (m_storage s),
            m_current_path := [] @ [?new_root]\<rparr>"
  have p: "m_current_path ?s3 = [] @ [?new_root]" by simp
  have "split_node sha1 L s = split_root_and_grow sha1 L s"
    using assms by (subst split_node.simps) simp
  also note split_root_and_grow_eq [OF assms]
  finally show ?thesis
    unfolding Let_def create_children_till_leaf_spine [OF p]
    by (simp add: set_root_ptr_def)
qed

text \<open>
  \<^bold>\<open>Claim C5.\<close> The steps of \<^verbatim>\<open>insert_sorted\<close>, for a path \<open>rest @ [leaf]\<close>: a leaf that
  is not full gets the key appended and \<^verbatim>\<open>keys_count\<close> incremented; a full leaf goes
  to \<^verbatim>\<open>split_node\<close> with level 0.  \<^verbatim>\<open>split_node\<close> at level \<open>L\<close> writes the back of the
  path and pops it; when the new back is full too it recurses with level \<open>L + 1\<close>;
  otherwise the key becomes the new rightmost key of the new back and a chain of
  \<open>L + 1\<close> empty nodes ending in a leaf is appended under it.  When the back is the
  root, a new root with the single key and \<^verbatim>\<open>pointers[0]\<close> the old root is created, the
  old root is written with its new parent, the chain is appended, the persisted root
  pointer is updated and the height is incremented.
\<close>
theorem insertion_algorithm_steps:
  "m_current_path s = rest @ [leaf] \<Longrightarrow>
   (\<not> is_full leaf \<longrightarrow>
      insert_sorted sha1 s =
        s\<lparr>m_current_path :=
            rest @ [leaf\<lparr>keys := (keys leaf)[unat (keys_count leaf) := sha1],
                          keys_count := keys_count leaf + 1\<rparr>]\<rparr>)
   \<and> (is_full leaf \<longrightarrow> insert_sorted sha1 s = split_node sha1 0 s)
   \<and> (\<forall>rest' parent. rest = rest' @ [parent] \<and> is_full parent \<longrightarrow>
        split_node sha1 L s =
          split_node sha1 (L + 1)
            (s\<lparr>m_storage := write_node (m_order s) leaf (m_storage s),
               m_current_path := rest\<rparr>))
   \<and> (\<forall>rest' parent. rest = rest' @ [parent] \<and> \<not> is_full parent \<longrightarrow>
        split_node sha1 L s =
          s\<lparr>m_storage := write_node (m_order s) leaf (m_storage s),
            m_next_node_ptr := m_next_node_ptr s + L + 1,
            m_current_path :=
              rest' @ [parent\<lparr>keys := (keys parent)[unat (keys_count parent) := sha1],
                              keys_count := keys_count parent + 1,
                              pointers := (pointers parent)
                                [unat (keys_count parent + 1) := m_next_node_ptr s]\<rparr>]
              @ spine (m_order s) (this_pointer parent) (m_next_node_ptr s) (unat L)\<rparr>)
   \<and> (rest = [] \<longrightarrow>
        split_node sha1 L s =
          s\<lparr>m_storage :=
              storage_write (le_bytes sizeof_pointer (m_next_node_ptr s))
                (seek_out 4
                  (write_node (m_order s) (leaf\<lparr>parent_pointer := m_next_node_ptr s\<rparr>)
                     (m_storage s))),
            m_root_ptr := m_next_node_ptr s,
            m_next_node_ptr := m_next_node_ptr s + 1 + L + 1,
            m_tree_height := m_tree_height s + 1,
            m_current_path :=
              [\<lparr>is_leaf = False, keys_count = 1,
                pointers = (replicate (2 * unat (m_order s) + 1) k_unused_pointer)
                  [0 := this_pointer leaf, unat (1 :: 32 word) := m_next_node_ptr s + 1],
                keys = (replicate (2 * unat (m_order s)) (replicate 20 0))[0 := sha1],
                parent_pointer = k_unused_pointer,
                this_pointer = m_next_node_ptr s\<rparr>]
              @ spine (m_order s) (m_next_node_ptr s) (m_next_node_ptr s + 1) (unat L)\<rparr>)"
proof (intro conjI allI impI)
  assume p: "m_current_path s = rest @ [leaf]"
  show "insert_sorted sha1 s =
        s\<lparr>m_current_path :=
            rest @ [leaf\<lparr>keys := (keys leaf)[unat (keys_count leaf) := sha1],
                          keys_count := keys_count leaf + 1\<rparr>]\<rparr>"
    if "\<not> is_full leaf"
    using p that
    by (simp add: insert_sorted_def current_node_def set_current_node_def push_back_def)
  show "insert_sorted sha1 s = split_node sha1 0 s" if "is_full leaf"
    using p that by (simp add: insert_sorted_def current_node_def)
  show "split_node sha1 L s =
          split_node sha1 (L + 1)
            (s\<lparr>m_storage := write_node (m_order s) leaf (m_storage s),
               m_current_path := rest\<rparr>)"
    if "rest = rest' @ [parent] \<and> is_full parent" for rest' parent
    using split_node_parent_full [of s rest' parent leaf sha1 L] p that by simp
  show "split_node sha1 L s =
          s\<lparr>m_storage := write_node (m_order s) leaf (m_storage s),
            m_next_node_ptr := m_next_node_ptr s + L + 1,
            m_current_path :=
              rest' @ [parent\<lparr>keys := (keys parent)[unat (keys_count parent) := sha1],
                              keys_count := keys_count parent + 1,
                              pointers := (pointers parent)
                                [unat (keys_count parent + 1) := m_next_node_ptr s]\<rparr>]
              @ spine (m_order s) (this_pointer parent) (m_next_node_ptr s) (unat L)\<rparr>"
    if "rest = rest' @ [parent] \<and> \<not> is_full parent" for rest' parent
    using split_node_parent_not_full [of s rest' parent leaf sha1 L] p that by simp
  show "split_node sha1 L s =
          s\<lparr>m_storage :=
              storage_write (le_bytes sizeof_pointer (m_next_node_ptr s))
                (seek_out 4
                  (write_node (m_order s) (leaf\<lparr>parent_pointer := m_next_node_ptr s\<rparr>)
                     (m_storage s))),
            m_root_ptr := m_next_node_ptr s,
            m_next_node_ptr := m_next_node_ptr s + 1 + L + 1,
            m_tree_height := m_tree_height s + 1,
            m_current_path :=
              [\<lparr>is_leaf = False, keys_count = 1,
                pointers = (replicate (2 * unat (m_order s) + 1) k_unused_pointer)
                  [0 := this_pointer leaf, unat (1 :: 32 word) := m_next_node_ptr s + 1],
                keys = (replicate (2 * unat (m_order s)) (replicate 20 0))[0 := sha1],
                parent_pointer = k_unused_pointer,
                this_pointer = m_next_node_ptr s\<rparr>]
              @ spine (m_order s) (m_next_node_ptr s) (m_next_node_ptr s + 1) (unat L)\<rparr>"
    if "rest = []"
    using split_node_root [of s leaf sha1 L] p that by simp
qed

lemma replicate_numeral: "replicate (numeral k) x = x # replicate (pred_numeral k) x"
  by (simp add: numeral_eq_Suc)

lemma list_update_numeral: "(x # xs)[numeral k := y] = x # xs[pred_numeral k := y]"
  by (simp add: numeral_eq_Suc)

lemma spine_1: "spine order parent_ptr ptr (Suc 0) = 
     (new_btree_node order parent_ptr)
        \<lparr>this_pointer := ptr, keys_count := 0, is_leaf := False,
         pointers := (pointers (new_btree_node order parent_ptr))[0 := ptr + 1]\<rparr>
     # spine order ptr (ptr + 1) 0"
  by simp

lemmas build_eval =
  insert_sorted_def current_node_def is_full_def set_current_node_def
  push_back_def node_insert_def split_node.simps split_root_and_grow_def
  create_children_till_leaf.simps Let_def new_node_pointer_def emplace_back_def pop_back_def
  inserter_write_node_def set_root_ptr_def btree_sorted_keys_inserter_def new_btree_node_def
  replicate_numeral list_update_numeral

lemmas build_def_eval = build_def list.map

lemma build_1_eval:
  "m_current_path (build 1 (map example_key [1])) =
     [] @ [example_tree_node True 0 k_unused_pointer [] [1]]"
  unfolding build_def_eval
  by (simp_all add: build_eval example_tree_node_def k_unused_pointer_def example_key_def)

lemma build_2_eval:
  "m_current_path (build 1 (map example_key [1, 2])) =
     [] @ [example_tree_node True 0 k_unused_pointer [] [1, 2]]"
  "m_order (build 1 (map example_key [1, 2])) = 1"
  "m_next_node_ptr (build 1 (map example_key [1, 2])) = 1"
  "m_tree_height (build 1 (map example_key [1, 2])) = 1"
  unfolding build_def_eval
  by (simp_all add: build_eval example_tree_node_def k_unused_pointer_def example_key_def)

lemma build_5_eval:
  "m_current_path (build 1 (map example_key [1, 2, 3, 4, 5])) =
     [example_tree_node False 1 k_unused_pointer [0, 2] [3]] @
     [example_tree_node True 2 1 [] [4, 5]]"
  "m_order (build 1 (map example_key [1, 2, 3, 4, 5])) = 1"
  "m_next_node_ptr (build 1 (map example_key [1, 2, 3, 4, 5])) = 3"
  "m_tree_height (build 1 (map example_key [1, 2, 3, 4, 5])) = 2"
  "m_root_ptr (build 1 (map example_key [1, 2, 3, 4, 5])) = 1"
  unfolding build_def_eval
  by (simp_all add: build_eval example_tree_node_def k_unused_pointer_def example_key_def)

lemma example_builder_eval:
  "m_current_path (example_builder) =
     [example_tree_node False 1 k_unused_pointer [0, 2, 3] [3, 6]] @
     [example_tree_node True 3 1 [] [7, 8]]"
  "m_order (example_builder) = 1"
  "m_next_node_ptr (example_builder) = 4"
  "m_tree_height (example_builder) = 2"
  "m_root_ptr (example_builder) = 1"
  unfolding example_builder_def build_def_eval
  by (simp_all add: build_eval example_tree_node_def k_unused_pointer_def example_key_def)

theorem insertion_algorithm_steps_witness:
  "m_current_path (insert_sorted (example_key 2) (build 1 (map example_key [1])))
     = [example_tree_node True 0 k_unused_pointer [] [1, 2]]
   \<and> (let s = insert_sorted (example_key 3) (build 1 (map example_key [1, 2]))
      in m_current_path s =
           [example_tree_node False 1 k_unused_pointer [0, 2] [3], example_tree_node True 2 1 [] []]
         \<and> m_root_ptr s = 1 \<and> m_tree_height s = 2 \<and> m_next_node_ptr s = 3)
   \<and> (let s = insert_sorted (example_key 6) (build 1 (map example_key [1, 2, 3, 4, 5]))
      in m_current_path s =
           [example_tree_node False 1 k_unused_pointer [0, 2, 3] [3, 6],
            example_tree_node True 3 1 [] []]
         \<and> m_root_ptr s = 1 \<and> m_tree_height s = 2 \<and> m_next_node_ptr s = 4)
   \<and> (let s = insert_sorted (example_key 9) (example_builder)
      in m_current_path s =
           [example_tree_node False 4 k_unused_pointer [1, 5] [9],
            example_tree_node False 5 4 [6] [], example_tree_node True 6 5 [] []]
         \<and> m_root_ptr s = 4 \<and> m_tree_height s = 3 \<and> m_next_node_ptr s = 7)"
proof -
  let ?A = "build 1 (map example_key [1])"
  let ?B = "build 1 (map example_key [1, 2])"
  let ?C = "build 1 (map example_key [1, 2, 3, 4, 5])"
  let ?D = "example_builder"
  let ?D' = "?D\<lparr>m_storage := write_node (m_order ?D) (example_tree_node True 3 1 [] [7, 8]) (m_storage ?D),
               m_current_path := [example_tree_node False 1 k_unused_pointer [0, 2, 3] [3, 6]]\<rparr>"
  have d': "m_current_path ?D' = [] @ [example_tree_node False 1 k_unused_pointer [0, 2, 3] [3, 6]]"
    by simp
  note A = insertion_algorithm_steps [OF build_1_eval, of "example_key 2" 0]
  note B = insertion_algorithm_steps [OF build_2_eval(1), of "example_key 3" 0]
  note C = insertion_algorithm_steps [OF build_5_eval(1), of "example_key 6" 0]
  note D = insertion_algorithm_steps [OF example_builder_eval(1), of "example_key 9" 0]
  note D' = insertion_algorithm_steps [OF d', of "example_key 9" 1]
  note e = build_2_eval(2-) [simplified] build_5_eval(2-) [simplified]
    example_builder_eval(2-) [simplified]
  have 1: "m_current_path (insert_sorted (example_key 2) ?A)
     = [example_tree_node True 0 k_unused_pointer [] [1, 2]]"
    using A by (simp add: example_tree_node_def is_full_def
        replicate_numeral list_update_numeral)
  have 2: "insert_sorted (example_key 3) ?B = split_node (example_key 3) 0 ?B"
    using B by (simp add: example_tree_node_def is_full_def)
  have 3: "insert_sorted (example_key 6) ?C = split_node (example_key 6) 0 ?C"
    using C by (simp add: example_tree_node_def is_full_def)
  have 4: "insert_sorted (example_key 9) ?D = split_node (example_key 9) 0 ?D"
    using D by (simp add: example_tree_node_def is_full_def)
  have 5: "split_node (example_key 9) 0 ?D = split_node (example_key 9) 1 ?D'"
    using D by (simp add: example_tree_node_def is_full_def e)
  show ?thesis
    unfolding Let_def 2 3 4 5
    using 1 B C D'
    by (simp add: e example_tree_node_def is_full_def new_btree_node_def
        k_unused_pointer_def replicate_numeral list_update_numeral)
qed

subsection \<open>Frame of the bulk insertion\<close>

lemma write_node_changes:
  "wf_node order n \<Longrightarrow> bytes (write_node order n st) i \<noteq> bytes st i \<Longrightarrow>
     i \<in> record_range order (this_pointer n)"
proof (rule ccontr)
  assume wf: "wf_node order n" and d: "bytes (write_node order n st) i \<noteq> bytes st i"
    and "i \<notin> record_range order (this_pointer n)"
  then have "i < unat (node_place order (this_pointer n)) \<or>
      unat (node_place order (this_pointer n)) + binary_size order \<le> i"
    by (auto simp: record_range_def)
  from write_node_frame [OF wf this] d show False by simp
qed


lemma list_all_update:
  "list_all P xs \<Longrightarrow> P x \<Longrightarrow> list_all P (xs[i := x])"
  by (induction xs arbitrary: i) (auto split: nat.splits)

lemma wf_new_btree_node: "wf_node order (new_btree_node order p)"
  by (simp add: wf_node_def new_btree_node_def list_all_iff)


lemma wf_node_fields [simp]:
  "wf_node order (n\<lparr>parent_pointer := p\<rparr>) = wf_node order n"
  "wf_node order (n\<lparr>this_pointer := p\<rparr>) = wf_node order n"
  "wf_node order (n\<lparr>keys_count := c\<rparr>) = wf_node order n"
  "wf_node order (n\<lparr>is_leaf := b\<rparr>) = wf_node order n"
  "wf_node order (n\<lparr>pointers := (pointers n)[j := q]\<rparr>) = wf_node order n"
  by (simp_all add: wf_node_def)








lemma unat_node_place_small:
  assumes "binary_size order < 2 ^ 32"
  shows "unat (node_place order k) = 8 + unat k * binary_size order"
proof -
  have "unat k < 2 ^ 32" using unsigned_less [of k, where 'a = nat] by simp
  then have "unat k \<le> 2 ^ 32 - 1" by simp
  moreover from assms have "binary_size order \<le> 2 ^ 32 - 1" by simp
  ultimately have "unat k * binary_size order \<le> (2 ^ 32 - 1) * (2 ^ 32 - 1)"
    by (rule mult_le_mono)
  then have "8 + unat k * binary_size order < 2 ^ 64" by simp
  then show ?thesis by (simp add: unat_node_place)
qed

lemma record_range_disjoint:
  assumes "binary_size order < 2 ^ 32" "k \<noteq> k'"
  shows "record_range order k \<inter> record_range order k' = {}"
proof -
  have aux: "8 + a * S + S \<le> 8 + b * S" if "a < b" for a b S :: nat
  proof -
    from that have "Suc a \<le> b" by simp
    then have "Suc a * S \<le> b * S" by (rule mult_le_mono1)
    then show ?thesis by simp
  qed
  from assms(2) have "unat k < unat k' \<or> unat k' < unat k"
    by (metis linorder_neqE_nat word_unat_eq_iff)
  then show ?thesis
    using aux [of "unat k" "unat k'" "binary_size order"]
      aux [of "unat k'" "unat k" "binary_size order"]
    by (auto simp: record_range_def unat_node_place_small [OF assms(1)])
qed

lemma record_range_above_header:
  "binary_size order < 2 ^ 32 \<Longrightarrow> i \<in> record_range order k \<Longrightarrow> 8 \<le> i"
  by (simp add: record_range_def unat_node_place_small)

lemma read_node_cong:
  assumes "\<forall>i\<in>record_range order k. bytes st' i = bytes st i"
  shows "fst (read_node order k st') = fst (read_node order k st)"
proof -
  have "bytes_at st' (unat (node_place order k)) (binary_size order) =
      bytes_at st (unat (node_place order k)) (binary_size order)"
    using assms unfolding bytes_at_def record_range_def by (intro map_cong) auto
  then show ?thesis by (simp add: read_node_eq)
qed

lemma wf_push_back:
  "wf_node order n \<Longrightarrow> length sha1 = 20 \<Longrightarrow> wf_node order (push_back sha1 n)"
  by (simp add: push_back_def wf_node_def list_all_update)

lemma takeWhile_full_last:
  "is_full leaf \<Longrightarrow> takeWhile is_full (rev (rest @ [leaf])) = leaf # takeWhile is_full (rev rest)"
  "\<not> is_full leaf \<Longrightarrow> takeWhile is_full (rev (rest @ [leaf])) = []"
  by simp_all



lemma read_node_in_pos [simp]:
  "fst (read_node order k (st\<lparr>in_pos := p\<rparr>)) = fst (read_node order k st)"
  by (simp add: read_node_eq)

lemma bytes_read_node [simp]: "bytes (snd (read_node order k st)) = bytes st"
  by (simp add: read_node_eq)

lemma read_node_pair:
  "read_node order k st =
     (node_at order k st, st\<lparr>in_pos := unat (node_place order k) + binary_size order\<rparr>)"
  by (simp add: node_at_def read_node_eq)

lemma node_at_in_pos: "node_at order k (st\<lparr>in_pos := p\<rparr>) = node_at order k st"
  by (simp add: node_at_def)

lemma node_at_write_same:
  "wf_node order n \<Longrightarrow> this_pointer n = k \<Longrightarrow> node_at order k (write_node order n st) = n"
  using read_write_node [of order n st] by (simp add: node_at_def)

lemma node_at_write_other:
  assumes "wf_node order n" "binary_size order < 2 ^ 32" "this_pointer n \<noteq> k"
  shows "node_at order k (write_node order n st) = node_at order k st"
  unfolding node_at_def
proof (rule read_node_cong, rule ballI, rule ccontr)
  fix i assume i: "i \<in> record_range order k"
    and "bytes (write_node order n st) i \<noteq> bytes st i"
  from write_node_changes [OF assms(1) this(2)] i
    record_range_disjoint [OF assms(2), of k "this_pointer n"] assms(3)
  show False by auto
qed

lemma node_at_header_write:
  assumes "binary_size order < 2 ^ 32" "p + length bs \<le> 8"
  shows "node_at order k (storage_write bs (seek_out p st)) = node_at order k st"
  unfolding node_at_def
proof (rule read_node_cong, rule ballI)
  fix i assume "i \<in> record_range order k"
  from record_range_above_header [OF assms(1) this] assms(2)
  show "bytes (storage_write bs (seek_out p st)) i = bytes st i"
    by (simp add: bytes_storage_write seek_out_def)
qed

lemma inserter_read_node_eq:
  "inserter_read_node k s =
     (node_at (m_order s) k (m_storage s),
      s\<lparr>m_storage := (m_storage s)
           \<lparr>in_pos := unat (node_place (m_order s) k) + binary_size (m_order s)\<rparr>\<rparr>)"
  by (simp add: inserter_read_node_def read_node_pair)

lemma binary_size_1: "binary_size 1 = 61"
  by (simp add: binary_size_def binary_pointers_size_def binary_keys_size_def sizeof_pointer_def)

lemmas fuel_numeral =
  create_nodes_to_fulfill_b_tree.simps(2) [of "pred_numeral k", folded numeral_eq_Suc]
  fulfill_loop.simps(2) [of "pred_numeral k", folded numeral_eq_Suc]
  rebalance_keys_in_node.simps(2) [of "pred_numeral k", folded numeral_eq_Suc]
  rebalance_loop.simps(2) [of "pred_numeral k", folded numeral_eq_Suc]
  contains.simps(2) [of "pred_numeral k", folded numeral_eq_Suc]
  for k

lemmas final_eval =
  finalize_inserting_def rebalance_tree_def rebalance_keys_def
  inserter_write_node_def inserter_read_node_eq fuel_numeral
  node_at_write_same node_at_write_other node_at_in_pos node_at_header_write
  wf_node_def binary_size_1 example_key_def length_le_bytes sizeof_pointer_def
  expected_min_number_of_keys_def rightmost_pointer_def children_count_def
  k_unused_pointer_def new_node_pointer_def new_btree_node_def Let_def
  replicate_numeral list_update_numeral


lemma insert_all_append: "insert_all (xs @ ys) s = insert_all ys (insert_all xs s)"
  by (induction xs arbitrary: s) auto













subsection \<open>A build whose root never splits\<close>

lemma btree_sorted_keys_inserter_eq:
  "btree_sorted_keys_inserter st order =
     \<lparr>m_storage = storage_write (le_bytes 4 order) (seek_out 0 st),
      m_order = order, m_root_ptr = 0, m_next_node_ptr = 1,
      m_current_path = [root_leaf order], m_tree_height = 1, m_visited_nodes = {},
      m_nodes_created_during_rebalancing = {},
      m_keys_took_by_provider = Map.empty\<rparr>"
  by (simp add: btree_sorted_keys_inserter_def Let_def new_node_pointer_def emplace_back_def
      root_leaf_def)

lemma wf_root_leaf: "wf_node order (root_leaf order)"
  using wf_new_btree_node [of order k_unused_pointer] by (simp add: root_leaf_def)

lemma unat_Suc_le: "unat (c + 1 :: 32 word) \<le> unat c + 1"
  by (simp add: unat_word_ariths)

lemma insert_all_root_leaf:
  assumes "m_current_path s = [leaf]" "wf_node (m_order s) leaf" "is_leaf leaf"
    and "unat (keys_count leaf) + length ks \<le> length (keys leaf)"
    and "\<forall>k\<in>set ks. length k = 20"
  shows "\<exists>leaf'. insert_all ks s = s\<lparr>m_current_path := [leaf']\<rparr> \<and>
           wf_node (m_order s) leaf' \<and> is_leaf leaf' \<and> this_pointer leaf' = this_pointer leaf"
  using assms
proof (induction ks arbitrary: s leaf)
  case Nil
  then show ?case by (intro exI [of _ leaf]) simp
next
  case (Cons k ks)
  let ?leaf1 = "push_back k leaf"
  let ?s1 = "s\<lparr>m_current_path := [?leaf1]\<rparr>"
  from Cons.prems have nf: "\<not> is_full leaf" by (simp add: is_full_def)
  then have step: "insert_sorted k s = ?s1"
    using Cons.prems(1) by (simp add: insert_sorted_def current_node_def set_current_node_def)
  have wf1: "wf_node (m_order ?s1) ?leaf1"
    using wf_push_back [of "m_order s" leaf k] Cons.prems by simp
  have l1: "is_leaf ?leaf1" "this_pointer ?leaf1 = this_pointer leaf"
    "length (keys ?leaf1) = length (keys leaf)"
    using Cons.prems by (simp_all add: push_back_def)
  have c1: "unat (keys_count ?leaf1) + length ks \<le> length (keys ?leaf1)"
    using Cons.prems(4) unat_Suc_le [of "keys_count leaf"] by (simp add: push_back_def)
  have "\<exists>leaf'. insert_all ks ?s1 = ?s1\<lparr>m_current_path := [leaf']\<rparr> \<and>
           wf_node (m_order ?s1) leaf' \<and> is_leaf leaf' \<and> this_pointer leaf' = this_pointer ?leaf1"
    using wf1 l1(1) c1 Cons.prems(5) by (intro Cons.IH) simp_all
  then show ?case by (simp add: step l1)
qed

lemma finalize_root_leaf:
  assumes "m_current_path s = [leaf]" "wf_node (m_order s) leaf" "is_leaf leaf"
    and "this_pointer leaf = m_root_ptr s"
  shows "\<exists>st'. finalize_inserting (Suc fuel) s = Inr (s\<lparr>m_storage := st'\<rparr>) \<and>
           bytes st' = bytes (write_node (m_order s) leaf (m_storage s))"
proof -
  let ?st1 = "write_node (m_order s) leaf (m_storage s)"
  have r: "fst (read_node (m_order s) (m_root_ptr s) ?st1) = leaf"
    using read_write_node [OF assms(2), of "m_storage s"] assms(4) by simp
  obtain st2 where st2: "read_node (m_order s) (m_root_ptr s) ?st1 = (leaf, st2)"
    using r by (cases "read_node (m_order s) (m_root_ptr s) ?st1") simp
  then have b2: "bytes st2 = bytes ?st1"
    using bytes_read_node [of "m_order s" "m_root_ptr s" ?st1] by simp
  have "fst (read_node (m_order s) (m_root_ptr s) st2) =
      fst (read_node (m_order s) (m_root_ptr s) ?st1)"
    by (rule read_node_cong) (simp add: b2)
  with r have "fst (read_node (m_order s) (m_root_ptr s) st2) = leaf" by simp
  then obtain st3 where st3: "read_node (m_order s) (m_root_ptr s) st2 = (leaf, st3)"
    by (cases "read_node (m_order s) (m_root_ptr s) st2") simp
  then have b3: "bytes st3 = bytes st2"
    using bytes_read_node [of "m_order s" "m_root_ptr s" st2] by simp
  have "finalize_inserting (Suc fuel) s = Inr (s\<lparr>m_storage := st3\<rparr>)"
    using assms(1,3) st2 st3
    by (simp add: finalize_inserting_def rebalance_tree_def rebalance_keys_def
        inserter_write_node_def inserter_read_node_def)
  with b2 b3 show ?thesis by auto
qed

lemma open_reader_eq:
  "fst (open_reader st) = (le_word (bytes_at st 0 4), le_word (bytes_at st 4 sizeof_pointer))"
  by (simp add: open_reader_def storage_read_eq seek_in_def Let_def)

lemma node_place_0: "unat (node_place order 0) = 8"
  by (simp add: node_place_def tree_offset_def sizeof_pointer_def)

lemma bytes_at_cong:
  "(\<And>i. off \<le> i \<Longrightarrow> i < off + n \<Longrightarrow> bytes st' i = bytes st i) \<Longrightarrow>
     bytes_at st' off n = bytes_at st off n"
  unfolding bytes_at_def by (intro map_cong) auto

lemma open_reader_pair: "open_reader st = (header_at st, st\<lparr>in_pos := 4 + sizeof_pointer\<rparr>)"
  by (simp add: header_at_def open_reader_def storage_read_eq seek_in_def Let_def)

lemma header_at_eq:
  "header_at st = (le_word (bytes_at st 0 4), le_word (bytes_at st 4 sizeof_pointer))"
  by (simp add: header_at_def open_reader_eq)

lemma header_at_in_pos: "header_at (st\<lparr>in_pos := p\<rparr>) = header_at st"
  by (simp add: header_at_eq)

lemma header_at_write_node:
  assumes "wf_node order n" "binary_size order < 2 ^ 32"
  shows "header_at (write_node order n st) = header_at st"
proof -
  have "bytes (write_node order n st) i = bytes st i" if "i < 8" for i
    using write_node_frame [OF assms(1), of i st] that
    by (simp add: unat_node_place_small [OF assms(2)])
  then have "bytes_at (write_node order n st) 0 4 = bytes_at st 0 4"
    and "bytes_at (write_node order n st) 4 sizeof_pointer = bytes_at st 4 sizeof_pointer"
    by (auto intro!: bytes_at_cong simp: sizeof_pointer_def)
  then show ?thesis by (simp add: header_at_eq)
qed

lemma header_at_root_write:
  "header_at (storage_write (le_bytes sizeof_pointer p) (seek_out 4 st)) = (fst (header_at st), p)"
proof -
  have "bytes_at (storage_write (le_bytes sizeof_pointer p) (seek_out 4 st)) 0 4 = bytes_at st 0 4"
    by (rule bytes_at_cong) (simp add: bytes_storage_write seek_out_def)
  moreover have "bytes_at (storage_write (le_bytes sizeof_pointer p) (seek_out 4 st)) 4 sizeof_pointer
      = le_bytes sizeof_pointer p"
    using bytes_at_write_same [of "le_bytes sizeof_pointer p" "seek_out 4 st"]
    by (simp add: seek_out_def length_le_bytes)
  ultimately show ?thesis
    by (simp add: header_at_eq sizeof_pointer_def le_word_le_bytes32)
qed

lemma header_at_order_write:
  "header_at (storage_write (le_bytes 4 order) (seek_out 0 st)) = (order, snd (header_at st))"
proof -
  have "bytes_at (storage_write (le_bytes 4 order) (seek_out 0 st)) 4 sizeof_pointer =
      bytes_at st 4 sizeof_pointer"
    by (rule bytes_at_cong) (simp add: bytes_storage_write seek_out_def length_le_bytes)
  moreover have "bytes_at (storage_write (le_bytes 4 order) (seek_out 0 st)) 0 4 = le_bytes 4 order"
    using bytes_at_write_same [of "le_bytes 4 order" "seek_out 0 st"]
    by (simp add: seek_out_def length_le_bytes)
  ultimately show ?thesis
    by (simp add: header_at_eq le_word_le_bytes32)
qed

lemma header_at_empty: "header_at empty_storage = (0, 0)"
proof -
  have u: "[0..<4] = [0, 1, 2, 3]" "[4..<8] = [4, 5, 6, 7]" by (simp_all add: upt_conv_Cons)
  show ?thesis
    by (simp add: header_at_eq bytes_at_def empty_storage_def sizeof_pointer_def u)
qed

lemmas reader_eval =
  reader_contains_def open_reader_pair header_at_in_pos header_at_write_node
  header_at_root_write [unfolded sizeof_pointer_def] header_at_order_write header_at_empty
  read_node_pair lower_bound.simps word_le_nat_alt word_less_nat_alt

lemma header_at_stale: "header_at stale_storage = (0, 7)"
proof -
  have u: "[0..<4] = [0, 1, 2, 3]" "[4..<8] = [4, 5, 6, 7]" by (simp_all add: upt_conv_Cons)
  show ?thesis
    by (simp add: header_at_eq bytes_at_def stale_storage_def sizeof_pointer_def u)
qed

lemma insert_all_root_leaf_keys:
  assumes "m_current_path s = [leaf]"
    and "unat (keys_count leaf) + length ks \<le> length (keys leaf)"
    and "unat (keys_count leaf) + length ks < 2 ^ 32"
  shows "\<exists>leaf'. insert_all ks s = s\<lparr>m_current_path := [leaf']\<rparr> \<and>
           unat (keys_count leaf') = unat (keys_count leaf) + length ks \<and>
           length (keys leaf') = length (keys leaf) \<and>
           take (unat (keys_count leaf') ) (keys leaf') =
             take (unat (keys_count leaf)) (keys leaf) @ ks"
  using assms
proof (induction ks arbitrary: s leaf)
  case Nil
  then show ?case by (intro exI [of _ leaf]) simp
next
  case (Cons k ks)
  let ?leaf1 = "push_back k leaf"
  let ?s1 = "s\<lparr>m_current_path := [?leaf1]\<rparr>"
  from Cons.prems have nf: "\<not> is_full leaf" by (simp add: is_full_def)
  then have step: "insert_sorted k s = ?s1"
    using Cons.prems(1) by (simp add: insert_sorted_def current_node_def set_current_node_def)
  have c: "unat (keys_count leaf + 1) = unat (keys_count leaf) + 1"
    using Cons.prems(3) by (simp add: unat_word_ariths)
  have l1: "unat (keys_count ?leaf1) = unat (keys_count leaf) + 1"
    "length (keys ?leaf1) = length (keys leaf)"
    "take (Suc (unat (keys_count leaf))) (keys ?leaf1) =
       take (unat (keys_count leaf)) (keys leaf) @ [k]"
    using Cons.prems(2) c by (simp_all add: push_back_def take_Suc_conv_app_nth)
  have "\<exists>leaf'. insert_all ks ?s1 = ?s1\<lparr>m_current_path := [leaf']\<rparr> \<and>
           unat (keys_count leaf') = unat (keys_count ?leaf1) + length ks \<and>
           length (keys leaf') = length (keys ?leaf1) \<and>
           take (unat (keys_count leaf')) (keys leaf') =
             take (unat (keys_count ?leaf1)) (keys ?leaf1) @ ks"
    using Cons.prems(2,3) l1(1,2) by (intro Cons.IH) simp_all
  then show ?case by (simp add: step l1)
qed

text \<open>
  \<^bold>\<open>Claim C9\<close> as stated fails on a store that is not zero at offset 4.  Order 1, keys 1
  and 2 on a store whose byte 4 holds 7: the root never splits, its identifier is 0 and the
  builder's root pointer member is 0, finalization writes the root as node 0 and leaves
  bytes 4 to 7 alone, and the reading constructor, which loads its root pointer from
  those bytes, gets 7.
\<close>
theorem reader_loads_unwritten_root_pointer:
  "\<exists>s'. finalize_inserting 1
          (insert_all [example_key 1, example_key 2]
             (btree_sorted_keys_inserter stale_storage 1)) = Inr s'
     \<and> m_root_ptr s' = 0
     \<and> map this_pointer (m_current_path s') = [0]
     \<and> fst (read_node 1 0 (m_storage s')) =
         \<lparr>is_leaf = True, keys_count = 2,
          pointers = [k_unused_pointer, k_unused_pointer, k_unused_pointer],
          keys = [example_key 1, example_key 2],
          parent_pointer = k_unused_pointer, this_pointer = 0\<rparr>
     \<and> fst (open_reader (m_storage s')) = (1, 7)"
  apply (simp add: build_eval)
  apply (simp add: final_eval reader_eval header_at_stale header_at_def [symmetric]
      node_at_def [symmetric])
  done

text \<open>
  \<^bold>\<open>Claim C9\<close>, amended.  The constructor writes the four bytes of the order and nothing
  else; its root pointer member is 0 and the root on its path has identifier 0.  A build
  of at most \<open>2m\<close> keys (20 bytes each) writes nothing during insertion, and finalization
  (with any positive budget) returns, leaves the bytes of the persisted root pointer as
  the store had them before the build, keeps root pointer 0, height 1 and the root leaf
  with identifier 0, and writes that leaf, which holds the inserted keys (fewer than
  \<open>2\<^sup>3\<^sup>2\<close>, the range of \<^verbatim>\<open>keys_count\<close>), as node 0.  The reader loads its root pointer
  from the store: it gets the order and whatever the store held at offset 4 before the
  build, which is the identifier of the root exactly when those bytes read as zero.
\<close>
theorem build_without_root_split:
  assumes "length ks \<le> 2 * unat order" and "\<forall>k\<in>set ks. length k = 20"
  shows
    "(\<forall>i. 4 \<le> i \<longrightarrow> bytes (m_storage (btree_sorted_keys_inserter st order)) i = bytes st i)
     \<and> bytes_at (m_storage (btree_sorted_keys_inserter st order)) 0 4 = le_bytes 4 order
     \<and> m_root_ptr (btree_sorted_keys_inserter st order) = 0
     \<and> map this_pointer (m_current_path (btree_sorted_keys_inserter st order)) = [0]
     \<and> m_storage (insert_all ks (btree_sorted_keys_inserter st order)) =
         m_storage (btree_sorted_keys_inserter st order)
     \<and> (\<exists>s'. finalize_inserting (Suc fuel) (insert_all ks (btree_sorted_keys_inserter st order))
                = Inr s'
            \<and> (\<forall>i. 4 \<le> i \<and> i < 4 + sizeof_pointer \<longrightarrow> bytes (m_storage s') i = bytes st i)
            \<and> m_root_ptr s' = 0 \<and> m_tree_height s' = 1
            \<and> map this_pointer (m_current_path s') = [0]
            \<and> is_leaf (last (m_current_path s'))
            \<and> fst (read_node order 0 (m_storage s')) = last (m_current_path s')
            \<and> (length ks < 2 ^ 32 \<longrightarrow>
                  unat (keys_count (last (m_current_path s'))) = length ks \<and>
                  take (length ks) (keys (last (m_current_path s'))) = ks)
            \<and> fst (open_reader (m_storage s')) = (order, le_word (bytes_at st 4 sizeof_pointer))
            \<and> (snd (fst (open_reader (m_storage s'))) = this_pointer (last (m_current_path s'))
                  \<longleftrightarrow> le_word (bytes_at st 4 sizeof_pointer) = (0 :: pointer_t)))"
proof -
  let ?c = "btree_sorted_keys_inserter st order"
  let ?st0 = "storage_write (le_bytes 4 order) (seek_out 0 st)"
  have c: "m_storage ?c = ?st0" "m_order ?c = order" "m_root_ptr ?c = 0"
    "m_current_path ?c = [root_leaf order]" "m_tree_height ?c = 1"
    by (simp_all add: btree_sorted_keys_inserter_eq)
  have b0: "bytes ?st0 i = bytes st i" if "4 \<le> i" for i
    using that by (simp add: bytes_storage_write seek_out_def length_le_bytes)
  have h0: "bytes_at ?st0 0 4 = le_bytes 4 order"
    using bytes_at_write_same [of "le_bytes 4 order" "seek_out 0 st"]
    by (simp add: seek_out_def length_le_bytes)
  have r: "this_pointer (root_leaf order) = 0" "is_leaf (root_leaf order)"
    "keys_count (root_leaf order) = 0" "length (keys (root_leaf order)) = 2 * unat order"
    by (simp_all add: root_leaf_def new_btree_node_def)
  have "\<exists>leaf'. insert_all ks ?c = ?c\<lparr>m_current_path := [leaf']\<rparr> \<and>
           wf_node (m_order ?c) leaf' \<and> is_leaf leaf' \<and>
           this_pointer leaf' = this_pointer (root_leaf order)"
    using assms by (intro insert_all_root_leaf) (simp_all add: c r wf_root_leaf)
  then obtain leaf' where ia: "insert_all ks ?c = ?c\<lparr>m_current_path := [leaf']\<rparr>"
    and wf: "wf_node order leaf'" and leaf: "is_leaf leaf'" and id: "this_pointer leaf' = 0"
    by (auto simp: c r)
  have ky: "unat (keys_count leaf') = length ks \<and> take (length ks) (keys leaf') = ks"
    if "length ks < 2 ^ 32"
  proof -
    have "\<exists>l. insert_all ks ?c = ?c\<lparr>m_current_path := [l]\<rparr> \<and>
           unat (keys_count l) = unat (keys_count (root_leaf order)) + length ks \<and>
           length (keys l) = length (keys (root_leaf order)) \<and>
           take (unat (keys_count l)) (keys l) =
             take (unat (keys_count (root_leaf order))) (keys (root_leaf order)) @ ks"
      using assms(1) that by (intro insert_all_root_leaf_keys) (simp_all add: c r)
    then obtain l where l: "insert_all ks ?c = ?c\<lparr>m_current_path := [l]\<rparr>"
      and n: "unat (keys_count l) = length ks"
      and t: "take (unat (keys_count l)) (keys l) = ks"
      by (auto simp: r)
    from l ia have "m_current_path (?c\<lparr>m_current_path := [l]\<rparr>) =
        m_current_path (?c\<lparr>m_current_path := [leaf']\<rparr>)" by (simp only:)
    then have "l = leaf'" by simp
    with n t show ?thesis by simp
  qed
  let ?s = "?c\<lparr>m_current_path := [leaf']\<rparr>"
  have "\<exists>st'. finalize_inserting (Suc fuel) ?s = Inr (?s\<lparr>m_storage := st'\<rparr>) \<and>
           bytes st' = bytes (write_node (m_order ?s) leaf' (m_storage ?s))"
    using wf leaf id by (intro finalize_root_leaf) (simp_all add: c)
  then obtain st' where fin: "finalize_inserting (Suc fuel) ?s = Inr (?s\<lparr>m_storage := st'\<rparr>)"
    and b: "bytes st' = bytes (write_node order leaf' ?st0)"
    by (auto simp: c)
  have low: "bytes st' i = bytes ?st0 i" if "i < 8" for i
    using write_node_frame [OF wf, of i ?st0] that by (simp add: b id node_place_0)
  have hdr: "bytes st' i = bytes st i" if "4 \<le> i \<and> i < 4 + sizeof_pointer" for i
    using that low [of i] b0 [of i] by (simp add: sizeof_pointer_def)
  have "fst (read_node order 0 st') = fst (read_node order 0 (write_node order leaf' ?st0))"
    by (rule read_node_cong) (simp add: b)
  then have rd: "fst (read_node order 0 st') = leaf'"
    using read_write_node [OF wf, of ?st0] by (simp add: id)
  have "bytes_at st' 0 4 = bytes_at ?st0 0 4"
    by (rule bytes_at_cong) (simp add: low)
  then have o: "le_word (bytes_at st' 0 4) = order"
    by (simp add: h0 le_word_le_bytes32)
  have "bytes_at st' 4 sizeof_pointer = bytes_at st 4 sizeof_pointer"
    by (rule bytes_at_cong) (simp add: hdr)
  with o have rdr: "fst (open_reader st') = (order, le_word (bytes_at st 4 sizeof_pointer))"
    by (simp add: open_reader_eq)
  let ?s' = "?s\<lparr>m_storage := st'\<rparr>"
  have A: "\<forall>i. 4 \<le> i \<longrightarrow> bytes (m_storage ?c) i = bytes st i"
    using b0 by (simp add: c)
  have B: "bytes_at (m_storage ?c) 0 4 = le_bytes 4 order"
    using h0 by (simp add: c)
  have C: "m_root_ptr ?c = 0" "map this_pointer (m_current_path ?c) = [0]"
    by (simp_all add: c r)
  have D: "m_storage (insert_all ks ?c) = m_storage ?c"
    by (simp add: ia)
  have E1: "finalize_inserting (Suc fuel) (insert_all ks ?c) = Inr ?s'"
    using fin by (simp only: ia)
  have E2: "\<forall>i. 4 \<le> i \<and> i < 4 + sizeof_pointer \<longrightarrow> bytes (m_storage ?s') i = bytes st i"
    using hdr by simp
  have E3: "m_root_ptr ?s' = 0" "m_tree_height ?s' = 1"
    "map this_pointer (m_current_path ?s') = [0]" "is_leaf (last (m_current_path ?s'))"
    "fst (read_node order 0 (m_storage ?s')) = last (m_current_path ?s')"
    "fst (open_reader (m_storage ?s')) = (order, le_word (bytes_at st 4 sizeof_pointer))"
    "snd (fst (open_reader (m_storage ?s'))) = this_pointer (last (m_current_path ?s'))
       \<longleftrightarrow> le_word (bytes_at st 4 sizeof_pointer) = (0 :: pointer_t)"
    using leaf id rd rdr by (simp_all add: c)
  have E4: "length ks < 2 ^ 32 \<longrightarrow>
      unat (keys_count (last (m_current_path ?s'))) = length ks \<and>
      take (length ks) (keys (last (m_current_path ?s'))) = ks"
    using ky by simp
  from E1 E2 E3 E4 have E: "\<exists>s'. finalize_inserting (Suc fuel) (insert_all ks ?c) = Inr s'
            \<and> (\<forall>i. 4 \<le> i \<and> i < 4 + sizeof_pointer \<longrightarrow> bytes (m_storage s') i = bytes st i)
            \<and> m_root_ptr s' = 0 \<and> m_tree_height s' = 1
            \<and> map this_pointer (m_current_path s') = [0]
            \<and> is_leaf (last (m_current_path s'))
            \<and> fst (read_node order 0 (m_storage s')) = last (m_current_path s')
            \<and> (length ks < 2 ^ 32 \<longrightarrow>
                  unat (keys_count (last (m_current_path s'))) = length ks \<and>
                  take (length ks) (keys (last (m_current_path s'))) = ks)
            \<and> fst (open_reader (m_storage s')) = (order, le_word (bytes_at st 4 sizeof_pointer))
            \<and> (snd (fst (open_reader (m_storage s'))) = this_pointer (last (m_current_path s'))
                  \<longleftrightarrow> le_word (bytes_at st 4 sizeof_pointer) = (0 :: pointer_t))"
    by (intro exI [of _ ?s']) (simp only: simp_thms)
  from A B C D E show ?thesis by (simp only: simp_thms)
qed

theorem build_without_root_split_witness:
  "length [example_key 1, example_key 2] \<le> 2 * unat (1 :: order_t)
   \<and> bytes_at (m_storage (btree_sorted_keys_inserter empty_storage 1)) 0 4 = [1, 0, 0, 0]
   \<and> (\<exists>s'. finalize_inserting (Suc 0)
          (insert_all [example_key 1, example_key 2] (btree_sorted_keys_inserter empty_storage 1))
            = Inr s'
        \<and> bytes_at (m_storage s') 4 4 = [0, 0, 0, 0]
        \<and> m_root_ptr s' = 0
        \<and> map this_pointer (m_current_path s') = [0]
        \<and> unat (keys_count (last (m_current_path s'))) = 2
        \<and> fst (open_reader (m_storage s')) = (1, 0))"
proof -
  have a: "length [example_key 1, example_key 2] \<le> 2 * unat (1 :: order_t)" by simp
  have k: "\<forall>k\<in>set [example_key 1, example_key 2]. length k = 20"
    by (simp add: example_key_def)
  have u: "[0..<4] = [0, 1, 2, 3]" "[4..<8] = [4, 5, 6, 7]" by (simp_all add: upt_conv_Cons)
  from build_without_root_split [OF a k, of empty_storage 0]
  obtain s' where h: "bytes_at (m_storage (btree_sorted_keys_inserter empty_storage 1)) 0 4
        = le_bytes 4 (1 :: order_t)"
    and f: "finalize_inserting (Suc 0)
          (insert_all [example_key 1, example_key 2] (btree_sorted_keys_inserter empty_storage 1))
            = Inr s'"
    and b: "\<forall>i. 4 \<le> i \<and> i < 4 + sizeof_pointer \<longrightarrow> bytes (m_storage s') i = bytes empty_storage i"
    and r: "m_root_ptr s' = 0" "map this_pointer (m_current_path s') = [0]"
      "fst (open_reader (m_storage s')) = (1, le_word (bytes_at empty_storage 4 sizeof_pointer))"
    and ky: "length [example_key 1, example_key 2] < 2 ^ 32 \<longrightarrow>
        unat (keys_count (last (m_current_path s'))) = length [example_key 1, example_key 2] \<and>
        take (length [example_key 1, example_key 2]) (keys (last (m_current_path s'))) =
          [example_key 1, example_key 2]"
    by (elim conjE exE)
  from b have "bytes_at (m_storage s') 4 4 = [0, 0, 0, 0]"
    by (simp add: bytes_at_def u sizeof_pointer_def empty_storage_def)
  moreover from r(3) have "fst (open_reader (m_storage s')) = (1, 0)"
    by (simp add: bytes_at_def u sizeof_pointer_def empty_storage_def)
  moreover from h have "bytes_at (m_storage (btree_sorted_keys_inserter empty_storage 1)) 0 4
      = [1, 0, 0, 0]"
    by (simp add: le_bytes_def u)
  moreover from ky have "unat (keys_count (last (m_current_path s'))) = 2"
    by simp
  ultimately show ?thesis using a f r by (intro conjI exI [of _ s']) (simp_all only:)
qed

subsection \<open>Finalization on concrete builds\<close>

lemma binary_size_2: "binary_size 2 = 109"
  by (simp add: binary_size_def binary_pointers_size_def binary_keys_size_def sizeof_pointer_def)

lemma upt_numeral_left: "[0..<numeral k] = 0 # map Suc [0..<pred_numeral k]"
  by (simp add: numeral_eq_Suc map_Suc_upt upt_conv_Cons del: upt_Suc)

text \<open>
  \<^bold>\<open>Claim C2\<close> fails on the code.  Order 1, keys 1, 2, 3: the third key splits the root, the
  new rightmost leaf (node 2) stays empty, and finalization returns with that non-root
  node at \<^verbatim>\<open>keys_count = 0 < m\<close>: the fulfillment pass stops at the leaf, the key
  rebalance returns at the root, which has its \<open>m\<close> keys.
\<close>
theorem finalize_leaves_underfull_leaf:
  "\<exists>s'. finalize_inserting 3 (build 1 (map example_key [1, 2, 3])) = Inr s'
     \<and> m_order s' = 1 \<and> m_root_ptr s' = 1 \<and> m_tree_height s' = 2
     \<and> fst (read_node 1 1 (m_storage s')) =
         \<lparr>is_leaf = False, keys_count = 1, pointers = [0, 2, k_unused_pointer],
          keys = [example_key 3, replicate 20 0],
          parent_pointer = k_unused_pointer, this_pointer = 1\<rparr>
     \<and> fst (read_node 1 2 (m_storage s')) =
         \<lparr>is_leaf = True, keys_count = 0,
          pointers = [k_unused_pointer, k_unused_pointer, k_unused_pointer],
          keys = [replicate 20 0, replicate 20 0], parent_pointer = 1, this_pointer = 2\<rparr>"
  unfolding build_def_eval
  apply (simp add: build_eval)
  apply (simp add: final_eval node_at_def [symmetric])
  done

text \<open>
  \<^bold>\<open>Claim C3\<close> fails on the code.  Order 1, keys 1 to 13, at the start of the second step of
  finalization: node 5, the rightmost child of the root, has one key and the two live
  children 6 and 7.  The fulfillment pass tests \<^verbatim>\<open>keys_count\<close> (not the child count)
  against \<open>m + 1\<close>, starts its loop at index \<^verbatim>\<open>children_count() - 1 = 1\<close> and
  overwrites the pointer to child 7 with the fresh empty leaf 8.
\<close>
theorem fulfill_overwrites_rightmost_child:
  "\<exists>s2. create_nodes_to_fulfill_b_tree 4 4 1
          (write_nodes (m_current_path (build 1 (map example_key
              [1, 2, 3, 4, 5, 6, 7, 8, 9, 10, 11, 12, 13])))
            (build 1 (map example_key [1, 2, 3, 4, 5, 6, 7, 8, 9, 10, 11, 12, 13]))) = Inr s2
     \<and> m_root_ptr s2 = 4 \<and> m_tree_height s2 = 3
     \<and> fst (read_node 1 5 (m_storage
           (write_nodes (m_current_path (build 1 (map example_key
              [1, 2, 3, 4, 5, 6, 7, 8, 9, 10, 11, 12, 13])))
            (build 1 (map example_key [1, 2, 3, 4, 5, 6, 7, 8, 9, 10, 11, 12, 13]))))) =
         \<lparr>is_leaf = False, keys_count = 1, pointers = [6, 7, k_unused_pointer],
          keys = [example_key 12, replicate 20 0], parent_pointer = 4, this_pointer = 5\<rparr>
     \<and> fst (read_node 1 5 (m_storage s2)) =
         \<lparr>is_leaf = False, keys_count = 1, pointers = [6, 8, k_unused_pointer],
          keys = [example_key 12, replicate 20 0], parent_pointer = 4, this_pointer = 5\<rparr>
     \<and> m_nodes_created_during_rebalancing s2 = {8}
     \<and> fst (read_node 1 7 (m_storage s2)) =
         \<lparr>is_leaf = True, keys_count = 1,
          pointers = [k_unused_pointer, k_unused_pointer, k_unused_pointer],
          keys = [example_key 13, replicate 20 0], parent_pointer = 5, this_pointer = 7\<rparr>"
  unfolding build_def_eval
  apply (simp add: build_eval)
  apply (simp add: final_eval reader_eval node_at_def [symmetric])
  done

text \<open>
  \<^bold>\<open>Claim C1\<close> fails on the code.  Order 1, keys 1 to 13, finalize, reopen: the reader finds
  key 12 and does not find key 13, which was inserted.  Key 13 sits in leaf 7, whose
  pointer in node 5 the fulfillment pass has overwritten.
\<close>
theorem inserted_key_not_found:
  "\<exists>s'. finalize_inserting 5 (build 1 (map example_key
          [1, 2, 3, 4, 5, 6, 7, 8, 9, 10, 11, 12, 13])) = Inr s'
     \<and> fst (open_reader (m_storage s')) = (1, 4)
     \<and> reader_contains 5 (m_storage s') (example_key 12) = Inr True
     \<and> reader_contains 5 (m_storage s') (example_key 13) = Inr False"
  unfolding build_def_eval
  apply (simp add: build_eval)
  apply (simp add: final_eval reader_eval header_at_def [symmetric])
  done

text \<open>
  \<^bold>\<open>Claim C4\<close> fails on the code.  Order 2, keys 1 to 5: the root is left with one key, the key
  rebalance borrows key 4 from leaf 0 and writes the root with keys 5, 4.  The loan is
  recorded in \<^verbatim>\<open>m_keys_took_by_provider\<close> (effective count of leaf 0: 3), but
  \<^verbatim>\<open>rebalance_keys\<close> ends after \<^verbatim>\<open>rebalance_keys_in_node(root)\<close>: leaf 0 is not
  written again, its record keeps \<^verbatim>\<open>keys_count = 4\<close> and key 4 as a live key.
\<close>
theorem donor_count_not_rewritten:
  "\<exists>s'. finalize_inserting 5 (build 2 (map example_key [1, 2, 3, 4, 5])) = Inr s'
     \<and> m_keys_took_by_provider s' 0 = Some 1
     \<and> get_number_of_keys_in_node_during_rebalance s' (fst (read_node 2 0 (m_storage s'))) = 3
     \<and> keys_count (fst (read_node 2 0 (m_storage s'))) = 4
     \<and> take 4 (keys (fst (read_node 2 0 (m_storage s')))) =
         [example_key 1, example_key 2, example_key 3, example_key 4]
     \<and> keys_count (fst (read_node 2 1 (m_storage s'))) = 2
     \<and> take 2 (keys (fst (read_node 2 1 (m_storage s')))) = [example_key 5, example_key 4]"
  unfolding build_def_eval
  apply (simp add: build_eval)
  apply (simp add: final_eval reader_eval binary_size_2 get_greatest_not_visited_key_def
     donor_candidates_def get_number_of_keys_in_node_during_rebalance_def
     get_number_of_keys_taken_from_node_during_rebalance_def upt_numeral_left
     node_at_def [symmetric])
  done

end
